theory Spec2Isabelle
  imports Complex_Main
begin

section \<open>Data model (app/db/models.py)\<close>

text \<open>
  Decimal amounts are exact rationals. A table is the list of its rows in insertion order.
  Telegram ids and primary keys are Python integers.
\<close>

record UserBalance =
  b_telegram_id :: int
  b_currency :: string
  available :: rat
  frozen :: rat
  total_deposited :: rat
  total_withdrawn :: rat

record Order =
  o_id :: int
  channel_id :: int
  format_id :: int
  buyer_telegram_id :: int
  seller_telegram_id :: int
  status :: string
  payment_currency :: "string option"
  payment_amount :: "rat option"
  post_text_html :: "nat list option"
  post_media_file_id :: "string option"
  post_token :: "string option"
  seller_revision_comment :: "string option"
  done_at :: "rat option"
  published_post_link :: "string option"
  published_channel_message_id :: "int option"
  verified_at :: "rat option"

record UsdtTransaction =
  event_id :: string
  tx_telegram_id :: int
  amount :: rat
  memo :: "string option"
  destination_memo :: "string option"
  tx_type :: string
  tx_status :: string
  tx_hash :: "string option"

record Channel =
  ch_id :: int
  ch_telegram_id :: int
  owner_telegram_id :: int
  ch_status :: string
  is_visible :: bool

record ChannelAdFormat =
  fmt_id :: int
  fmt_channel_id :: int
  is_enabled :: bool
  price_stars :: int
  price_usdt :: "rat option"
  duration_hours :: int

text \<open>
  The database: one list per table. \<open>users\<close> holds the \<open>telegram_id\<close> column of the
  \<open>users\<close> table; \<open>ton_usd_price\<close> is that column of the \<open>referral_settings\<close> row with
  id 1 (\<open>None\<close> when the row is absent).
\<close>

record db =
  users :: "int list"
  orders :: "Order list"
  balances :: "UserBalance list"
  usdt_transactions :: "UsdtTransaction list"
  channels :: "Channel list"
  formats :: "ChannelAdFormat list"
  ton_usd_price :: "rat option"

datatype db_error = MultipleResultsFound | IntegrityError

text \<open>SQLAlchemy's \<open>scalar_one_or_none\<close>: no row, the single row, or an exception.\<close>

fun scalar_one_or_none :: "'a list \<Rightarrow> db_error + 'a option" where
  "scalar_one_or_none [] = Inr None"
| "scalar_one_or_none [r] = Inr (Some r)"
| "scalar_one_or_none (r # r' # rs) = Inl MultipleResultsFound"

definition balance_key :: "int \<Rightarrow> string \<Rightarrow> UserBalance \<Rightarrow> bool" where
  "balance_key tid cur b = (b_telegram_id b = tid \<and> b_currency b = cur)"

text \<open>
  \<open>select(UserBalance).where(telegram_id == tid, currency == cur)\<close>. The table declares no
  unique constraint on the pair, so the query can find several rows.
\<close>

definition select_balance :: "UserBalance list \<Rightarrow> int \<Rightarrow> string \<Rightarrow> db_error + UserBalance option" where
  "select_balance bs tid cur = scalar_one_or_none (filter (balance_key tid cur) bs)"

text \<open>
  Writing attributes of the row object a successful \<open>select_balance\<close> returned, then
  committing: the one row with that key is rewritten in place.
\<close>

definition update_balance :: "int \<Rightarrow> string \<Rightarrow> (UserBalance \<Rightarrow> UserBalance) \<Rightarrow> UserBalance list \<Rightarrow> UserBalance list" where
  "update_balance tid cur f bs = map (\<lambda>b. if balance_key tid cur b then f b else b) bs"

text \<open>\<open>select(Order).where(Order.id == order_id)\<close>; \<open>id\<close> is the primary key.\<close>

definition select_order :: "Order list \<Rightarrow> int \<Rightarrow> Order option" where
  "select_order os oid = find (\<lambda>ord. o_id ord = oid) os"

definition update_order :: "int \<Rightarrow> (Order \<Rightarrow> Order) \<Rightarrow> Order list \<Rightarrow> Order list" where
  "update_order oid f os = map (\<lambda>ord. if o_id ord = oid then f ord else ord) os"

section \<open>Escrow primitives (app/services/order_payment.py)\<close>

text \<open>
  Each function opens its own session; an exception inside the \<open>try\<close> block rolls the
  session back and returns \<open>False\<close>, so the database is the one it started from.
\<close>

definition freeze_for_order :: "int \<Rightarrow> string \<Rightarrow> rat \<Rightarrow> db \<Rightarrow> bool \<times> db" where
  "freeze_for_order tid cur amt d =
     (case select_balance (balances d) tid cur of
        Inl e \<Rightarrow> (False, d)
      | Inr None \<Rightarrow> (False, d)
      | Inr (Some bal) \<Rightarrow>
          if available bal < amt then (False, d)
          else (True, d\<lparr>balances :=
                  update_balance tid cur
                    (\<lambda>b. b\<lparr>available := available b - amt, frozen := frozen b + amt\<rparr>)
                    (balances d)\<rparr>))"

text \<open>
  \<open>not order or not order.payment_currency or order.payment_amount is None\<close>: the order's
  currency and amount when it is a paid order.
\<close>

definition order_payment :: "Order option \<Rightarrow> (Order \<times> string \<times> rat) option" where
  "order_payment ordr =
     (case ordr of
        None \<Rightarrow> None
      | Some ord \<Rightarrow>
          (case payment_currency ord of
             None \<Rightarrow> None
           | Some cur \<Rightarrow>
               if cur = [] then None
               else (case payment_amount ord of
                       None \<Rightarrow> None
                     | Some amt \<Rightarrow> Some (ord, cur, amt))))"

definition new_seller_balance :: "int \<Rightarrow> string \<Rightarrow> rat \<Rightarrow> UserBalance" where
  "new_seller_balance tid cur amt =
     \<lparr>b_telegram_id = tid, b_currency = cur, available = amt, frozen = 0,
      total_deposited = 0, total_withdrawn = 0\<rparr>"

definition release_to_seller :: "int \<Rightarrow> db \<Rightarrow> bool \<times> db" where
  "release_to_seller oid d =
     (case order_payment (select_order (orders d) oid) of
        None \<Rightarrow> (True, d)
      | Some (ord, cur, amt) \<Rightarrow>
          if status ord \<noteq> ''done'' then (False, d)
          else
            (case select_balance (balances d) (buyer_telegram_id ord) cur of
               Inl e \<Rightarrow> (False, d)
             | Inr None \<Rightarrow> (False, d)
             | Inr (Some buyer_bal) \<Rightarrow>
                 if frozen buyer_bal < amt then (False, d)
                 else
                   (let bs1 = update_balance (buyer_telegram_id ord) cur
                                (\<lambda>b. b\<lparr>frozen := frozen b - amt\<rparr>) (balances d)
                    in case select_balance bs1 (seller_telegram_id ord) cur of
                         Inl e \<Rightarrow> (False, d)
                       | Inr (Some seller_bal) \<Rightarrow>
                           (True, d\<lparr>balances :=
                              update_balance (seller_telegram_id ord) cur
                                (\<lambda>b. b\<lparr>available := available b + amt\<rparr>) bs1\<rparr>)
                       | Inr None \<Rightarrow>
                           (True, d\<lparr>balances :=
                              bs1 @ [new_seller_balance (seller_telegram_id ord) cur amt]\<rparr>))))"

definition refund_to_buyer :: "int \<Rightarrow> db \<Rightarrow> bool \<times> db" where
  "refund_to_buyer oid d =
     (case order_payment (select_order (orders d) oid) of
        None \<Rightarrow> (True, d)
      | Some (ord, cur, amt) \<Rightarrow>
          (case select_balance (balances d) (buyer_telegram_id ord) cur of
             Inl e \<Rightarrow> (False, d)
           | Inr None \<Rightarrow> (False, d)
           | Inr (Some buyer_bal) \<Rightarrow>
               if frozen buyer_bal < amt then (False, d)
               else (True, d\<lparr>balances :=
                       update_balance (buyer_telegram_id ord) cur
                         (\<lambda>b. b\<lparr>frozen := frozen b - amt, available := available b + amt\<rparr>)
                         (balances d)\<rparr>)))"

section \<open>Order routes (app/api/routes/orders.py)\<close>

text \<open>
  A handler's answer is either an error (the status code of the \<open>HTTPException\<close>, a
  request the body schema refuses, or an exception nobody catches) or its value; the
  database the handler leaves behind is returned beside it.
\<close>

datatype http_error = HTTPException nat | RequestValidationError | Unhandled db_error

text \<open>\<open>Decimal.quantize(Decimal("0.01"))\<close> under the default context (round half even).\<close>

definition round_half_even :: "rat \<Rightarrow> int" where
  "round_half_even x =
     (let f = \<lfloor>x\<rfloor>; r = x - of_int f
      in if r < 1 / 2 then f else if 1 / 2 < r then f + 1 else if even f then f else f + 1)"

definition quantize_cents :: "rat \<Rightarrow> rat" where
  "quantize_cents x = of_int (round_half_even (x * 100)) / 100"

definition get_ton_price_for_usdt :: "rat \<Rightarrow> db \<Rightarrow> rat" where
  "get_ton_price_for_usdt usdt d =
     (let rate = (case ton_usd_price d of
                    None \<Rightarrow> 5
                  | Some p \<Rightarrow> if 0 < p then p else 5)
      in quantize_cents (usdt / rate))"

text \<open>The price of a format in the chosen currency, or the 400 of a format without one.\<close>

definition order_amount :: "string \<Rightarrow> ChannelAdFormat \<Rightarrow> db \<Rightarrow> http_error + rat" where
  "order_amount currency fmt d =
     (if currency = ''stars'' then
        (if price_stars fmt \<le> 0 then Inl (HTTPException 400)
         else Inr (of_int (price_stars fmt)))
      else
        (case price_usdt fmt of
           None \<Rightarrow> Inl (HTTPException 400)
         | Some p \<Rightarrow>
             if p \<le> 0 then Inl (HTTPException 400)
             else if currency = ''usdt'' then Inr p
             else Inr (get_ton_price_for_usdt p d)))"

text \<open>The autoincrement primary key: an id above every id of the table.\<close>

definition next_order_id :: "Order list \<Rightarrow> int" where
  "next_order_id os = fold max (map o_id os) 0 + 1"

definition new_order :: "int \<Rightarrow> Channel \<Rightarrow> ChannelAdFormat \<Rightarrow> int \<Rightarrow> string \<Rightarrow> string \<Rightarrow> rat \<Rightarrow> Order" where
  "new_order oid channel fmt telegram_id token currency amt =
     \<lparr>o_id = oid, channel_id = ch_id channel, format_id = fmt_id fmt,
      buyer_telegram_id = telegram_id, seller_telegram_id = owner_telegram_id channel,
      status = ''writing_post'', payment_currency = Some currency, payment_amount = Some amt,
      post_text_html = None, post_media_file_id = None, post_token = Some token,
      seller_revision_comment = None, done_at = None, published_post_link = None,
      published_channel_message_id = None, verified_at = None\<rparr>"

text \<open>
  \<open>create_order\<close>. \<open>token\<close> is the value \<open>_generate_post_token\<close> draws. The freeze commits
  in a session of its own before the order row is added; \<open>post_token\<close> is unique, so the
  insert of a token already in the table fails at commit. After a failed freeze the
  handler reads the balance once more for its message, outside any \<open>try\<close>.
\<close>

definition create_order :: "int \<Rightarrow> int \<Rightarrow> string \<Rightarrow> int \<Rightarrow> string \<Rightarrow> db \<Rightarrow> (http_error + Order) \<times> db" where
  "create_order channelId formatId currency telegram_id token d =
     (if currency \<notin> {''stars'', ''usdt'', ''ton''} then (Inl RequestValidationError, d)
      else
        case find (\<lambda>c. ch_id c = channelId \<and> ch_status c = ''active'' \<and> is_visible c) (channels d) of
          None \<Rightarrow> (Inl (HTTPException 404), d)
        | Some channel \<Rightarrow>
            if owner_telegram_id channel = telegram_id then (Inl (HTTPException 400), d)
            else
              (case find (\<lambda>f. fmt_id f = formatId \<and> fmt_channel_id f = channelId \<and> is_enabled f)
                      (formats d) of
                 None \<Rightarrow> (Inl (HTTPException 400), d)
               | Some fmt \<Rightarrow>
                   (case order_amount currency fmt d of
                      Inl e \<Rightarrow> (Inl e, d)
                    | Inr amt \<Rightarrow>
                        (case freeze_for_order telegram_id currency amt d of
                           (False, d1) \<Rightarrow>
                             (case select_balance (balances d1) telegram_id currency of
                                Inl e \<Rightarrow> (Inl (Unhandled e), d1)
                              | Inr bal \<Rightarrow> (Inl (HTTPException 400), d1))
                         | (True, d1) \<Rightarrow>
                             if find (\<lambda>ord. post_token ord = Some token) (orders d1) \<noteq> None
                             then (Inl (Unhandled IntegrityError), d1)
                             else
                               (let order = new_order (next_order_id (orders d1)) channel fmt
                                              telegram_id token currency amt
                                in (Inr order, d1\<lparr>orders := orders d1 @ [order]\<rparr>))))))"

definition cancel_order :: "int \<Rightarrow> int \<Rightarrow> db \<Rightarrow> (http_error + string) \<times> db" where
  "cancel_order order_id telegram_id d =
     (case select_order (orders d) order_id of
        None \<Rightarrow> (Inl (HTTPException 404), d)
      | Some order \<Rightarrow>
          if buyer_telegram_id order \<noteq> telegram_id then (Inl (HTTPException 403), d)
          else if status order \<notin> {''writing_post'', ''pending_seller''}
          then (Inl (HTTPException 400), d)
          else
            (let d1 = d\<lparr>orders := update_order order_id (\<lambda>ord. ord\<lparr>status := ''cancelled''\<rparr>) (orders d)\<rparr>
             in (Inr ''cancelled'', snd (refund_to_buyer order_id d1))))"

section \<open>Bot handlers (app/telegram_bot/handlers.py)\<close>

definition set_order_done :: "int \<Rightarrow> string option \<Rightarrow> int option \<Rightarrow> rat \<Rightarrow> db \<Rightarrow> bool \<times> db" where
  "set_order_done order_id link msg_id now d =
     (case select_order (orders d) order_id of
        None \<Rightarrow> (False, d)
      | Some order \<Rightarrow>
          (let d1 = d\<lparr>orders := update_order order_id
                        (\<lambda>ord. ord\<lparr>status := ''done'', done_at := Some now,
                                  seller_revision_comment := None,
                                  published_post_link :=
                                    (case link of None \<Rightarrow> published_post_link ord | Some l \<Rightarrow> Some l),
                                  published_channel_message_id :=
                                    (case msg_id of None \<Rightarrow> published_channel_message_id ord
                                     | Some m \<Rightarrow> Some m)\<rparr>)
                        (orders d)\<rparr>
           in (True, snd (release_to_seller order_id d1))))"

definition set_order_revision :: "int \<Rightarrow> string \<Rightarrow> db \<Rightarrow> bool \<times> db" where
  "set_order_revision order_id comment d =
     (case select_order (orders d) order_id of
        None \<Rightarrow> (False, d)
      | Some order \<Rightarrow>
          (True, d\<lparr>orders := update_order order_id
                     (\<lambda>ord. ord\<lparr>status := ''writing_post'', seller_revision_comment := Some comment\<rparr>)
                     (orders d)\<rparr>))"

definition set_order_cancelled :: "int \<Rightarrow> db \<Rightarrow> bool \<times> db" where
  "set_order_cancelled order_id d =
     (case select_order (orders d) order_id of
        None \<Rightarrow> (False, d)
      | Some order \<Rightarrow>
          (let d1 = d\<lparr>orders := update_order order_id (\<lambda>ord. ord\<lparr>status := ''cancelled''\<rparr>) (orders d)\<rparr>
           in (True, snd (refund_to_buyer order_id d1))))"

text \<open>
  What a seller callback does, in the order it does it: the send of the post to the
  channel, each commit of an order status, each call of a ledger primitive, and the
  answer to the seller.
\<close>

datatype reply = OrderNotFound | AlreadyProcessed | PublishFailed | OrderCompleted
  | StatusUpdateFailed | OrderDeclined | SaveError | CommentSent

datatype effect = Publish int | CommitStatus int string | LedgerRelease int | LedgerRefund int
  | Answer reply

text \<open>
  \<open>cb_seller_approve\<close>. \<open>publish\<close> is what \<open>_publish_post_to_channel\<close> returns for the
  order and its channel: \<open>None\<close> when the send raised, else the link and the message id.
\<close>

definition cb_seller_approve :: "int \<Rightarrow> (Order \<Rightarrow> Channel \<Rightarrow> (string option \<times> int option) option) \<Rightarrow> rat \<Rightarrow> db \<Rightarrow> effect list \<times> db" where
  "cb_seller_approve order_id publish now d =
     (case select_order (orders d) order_id of
        None \<Rightarrow> ([Answer OrderNotFound], d)
      | Some order \<Rightarrow>
          (case find (\<lambda>c. ch_id c = channel_id order) (channels d) of
             None \<Rightarrow> ([Answer OrderNotFound], d)
           | Some channel \<Rightarrow>
               if status order \<noteq> ''pending_seller'' then ([Answer AlreadyProcessed], d)
               else
                 (case publish order channel of
                    None \<Rightarrow> ([Publish order_id, Answer PublishFailed], d)
                  | Some (post_link, msg_id) \<Rightarrow>
                      (case set_order_done order_id post_link msg_id now d of
                         (True, d1) \<Rightarrow>
                           ([Publish order_id, CommitStatus order_id ''done'',
                             LedgerRelease order_id, Answer OrderCompleted], d1)
                       | (False, d1) \<Rightarrow>
                           ([Publish order_id, Answer StatusUpdateFailed], d1)))))"

definition cb_seller_decline :: "int \<Rightarrow> db \<Rightarrow> effect list \<times> db" where
  "cb_seller_decline order_id d =
     (case set_order_cancelled order_id d of
        (True, d1) \<Rightarrow>
          ([CommitStatus order_id ''cancelled'', LedgerRefund order_id, Answer OrderDeclined], d1)
      | (False, d1) \<Rightarrow> ([Answer SaveError], d1))"

text \<open>\<open>on_seller_comment\<close>, for the non-empty comment text the seller sent.\<close>

definition on_seller_comment :: "int \<Rightarrow> string \<Rightarrow> db \<Rightarrow> effect list \<times> db" where
  "on_seller_comment order_id comment d =
     (case set_order_revision order_id comment d of
        (True, d1) \<Rightarrow> ([CommitStatus order_id ''writing_post'', Answer CommentSent], d1)
      | (False, d1) \<Rightarrow> ([Answer SaveError], d1))"

section \<open>USDT deposit scanner (app/services/usdt_deposit_scanner.py)\<close>

text \<open>
  A TonAPI event, as far as the scanner reads it. A value under \<open>comment\<close>,
  \<open>decrypted_payload\<close> or \<open>payload\<close> is a string or a dictionary with optional \<open>text\<close>
  and \<open>comment\<close> entries; an absent key is \<open>None\<close>. \<open>amount\<close> is the raw amount in
  millionths of a USDT, already read as a number. \<open>a_nested\<close> is the dictionary under the
  action's \<open>JettonTransfer\<close> key, \<open>a_flat\<close> the keys of the action itself. \<open>ev_lt\<close> is
  \<open>str(ev.get("lt", ""))\<close>.
\<close>

datatype comment_val = CStr string | CDict "string option" "string option"

record transfer_fields =
  f_amount :: "int option"
  f_comment :: "comment_val option"
  f_decrypted_payload :: "comment_val option"
  f_payload :: "comment_val option"

record action =
  a_type :: string
  a_nested :: "transfer_fields option"
  a_flat :: transfer_fields

record event =
  ev_event_id :: "string option"
  ev_hash :: "string option"
  ev_lt :: string
  ev_actions :: "action list"

definition PREFIX :: string where
  "PREFIX = ''usdt_''"

text \<open>Python's \<open>x or y\<close> on optional strings: the first one that is present and non-empty.\<close>

definition str_truthy :: "string option \<Rightarrow> bool" where
  "str_truthy x = (case x of None \<Rightarrow> False | Some s \<Rightarrow> s \<noteq> [])"

definition comment_truthy :: "comment_val option \<Rightarrow> bool" where
  "comment_truthy x = (case x of None \<Rightarrow> False | Some (CStr s) \<Rightarrow> s \<noteq> [] | Some (CDict t c) \<Rightarrow> True)"

fun first_truthy :: "comment_val option list \<Rightarrow> comment_val option" where
  "first_truthy [] = None"
| "first_truthy (x # xs) = (if comment_truthy x then x else first_truthy xs)"

text \<open>\<open>str.strip()\<close> and \<open>str.isdigit()\<close> on ASCII text.\<close>

definition is_space :: "char \<Rightarrow> bool" where
  "is_space c = (of_char c \<in> {9, 10, 11, 12, 13, 28, 29, 30, 31, 32 :: nat})"

definition strip :: "string \<Rightarrow> string" where
  "strip s = rev (dropWhile is_space (rev (dropWhile is_space s)))"

definition is_digit_char :: "char \<Rightarrow> bool" where
  "is_digit_char c = (48 \<le> (of_char c :: nat) \<and> (of_char c :: nat) \<le> 57)"

definition isdigit :: "string \<Rightarrow> bool" where
  "isdigit s = (s \<noteq> [] \<and> list_all is_digit_char s)"

text \<open>\<open>int(memo)\<close>: the value of a decimal numeral, \<open>ValueError\<close> (\<open>None\<close>) otherwise.\<close>

definition py_int :: "string \<Rightarrow> int option" where
  "py_int s =
     (if isdigit s then Some (fold (\<lambda>c n. 10 * n + (int (of_char c) - 48)) s 0) else None)"

definition parse_jetton_transfer :: "action \<Rightarrow> (rat \<times> string option) option" where
  "parse_jetton_transfer act =
     (if a_type act \<notin> {''JettonTransfer'', ''jetton_transfer''} then None
      else
        (let jt = (case a_nested act of None \<Rightarrow> a_flat act | Some n \<Rightarrow> n)
         in case f_amount jt of
              None \<Rightarrow> None
            | Some raw_amount \<Rightarrow>
                (let amt = (of_int raw_amount :: rat) / 10 ^ 6
                 in if amt \<le> 0 then None
                    else
                      (let comment = first_truthy
                             [f_comment jt, f_decrypted_payload jt, f_payload jt,
                              f_comment (a_flat act), f_decrypted_payload (a_flat act),
                              f_payload (a_flat act)];
                           text = (case comment of
                                     None \<Rightarrow> []
                                   | Some (CStr s) \<Rightarrow> s
                                   | Some (CDict t c) \<Rightarrow>
                                       if str_truthy t then the t
                                       else if str_truthy c then the c else []);
                           memo = (if text = [] then None
                                   else if strip text = [] then None else Some (strip text))
                       in Some (amt, memo)))))"

definition already_processed :: "string \<Rightarrow> db \<Rightarrow> bool" where
  "already_processed eid d = (find (\<lambda>t. event_id t = eid) (usdt_transactions d) \<noteq> None)"

definition deposit_record :: "string \<Rightarrow> int \<Rightarrow> rat \<Rightarrow> UsdtTransaction" where
  "deposit_record eid tid amt =
     \<lparr>event_id = eid, tx_telegram_id = tid, amount = amt, memo = None, destination_memo = None,
      tx_type = ''deposit'', tx_status = ''completed'', tx_hash = None\<rparr>"

definition new_usdt_balance :: "int \<Rightarrow> rat \<Rightarrow> UserBalance" where
  "new_usdt_balance tid amt =
     \<lparr>b_telegram_id = tid, b_currency = ''usdt'', available = amt, frozen = 0,
      total_deposited = amt, total_withdrawn = 0\<rparr>"

text \<open>
  \<open>_credit_usdt\<close>: the balance change and the record are added to one session and
  committed together. \<open>event_id\<close> is a unique column, so the commit of a second record with
  the same id fails; every exception rolls the session back and returns \<open>False\<close>.
\<close>

definition credit_usdt :: "int \<Rightarrow> rat \<Rightarrow> string \<Rightarrow> db \<Rightarrow> bool \<times> db" where
  "credit_usdt tid amt eid d =
     (case select_balance (balances d) tid ''usdt'' of
        Inl e \<Rightarrow> (False, d)
      | Inr bal \<Rightarrow>
          (let bs1 = (case bal of
                        Some b0 \<Rightarrow>
                          update_balance tid ''usdt''
                            (\<lambda>b. b\<lparr>available := available b + amt,
                                    total_deposited := total_deposited b + amt\<rparr>)
                            (balances d)
                      | None \<Rightarrow> balances d @ [new_usdt_balance tid amt])
           in if already_processed eid d then (False, d)
              else (True, d\<lparr>balances := bs1,
                             usdt_transactions :=
                               usdt_transactions d @ [deposit_record eid tid amt]\<rparr>)))"

text \<open>
  The inner loop over an event's actions: the first action that parses as a transfer and
  carries an all-digit memo gives the account and the amount; the loop breaks there.
\<close>

fun first_transfer :: "action list \<Rightarrow> (int \<times> rat) option" where
  "first_transfer [] = None"
| "first_transfer (act # acts) =
     (case parse_jetton_transfer act of
        None \<Rightarrow> first_transfer acts
      | Some (amt, None) \<Rightarrow> first_transfer acts
      | Some (amt, Some m) \<Rightarrow>
          (if \<not> isdigit m then first_transfer acts
           else case py_int m of
                  None \<Rightarrow> first_transfer acts
                | Some tid \<Rightarrow> Some (tid, amt)))"

definition event_key :: "event \<Rightarrow> string" where
  "event_key ev =
     (if str_truthy (ev_event_id ev) then the (ev_event_id ev)
      else if str_truthy (ev_hash ev) then the (ev_hash ev)
      else ev_lt ev)"

text \<open>One round of the loop over the events: the number credited so far and the database.\<close>

definition scan_event :: "event \<Rightarrow> nat \<times> db \<Rightarrow> nat \<times> db" where
  "scan_event ev st =
     (let credited = fst st; d = snd st; ev_id = event_key ev
      in if ev_id = [] then st
         else if already_processed (PREFIX @ ev_id) d then st
         else
           (case first_transfer (ev_actions ev) of
              None \<Rightarrow> st
            | Some (tid, amt) \<Rightarrow>
                (case credit_usdt tid amt (PREFIX @ ev_id) d of
                   (True, d1) \<Rightarrow> (credited + 1, d1)
                 | (False, d1) \<Rightarrow> (credited, d1))))"

text \<open>\<open>scan_usdt_deposits\<close> on the events the feed returned.\<close>

definition scan_usdt_deposits :: "event list \<Rightarrow> db \<Rightarrow> nat \<times> db" where
  "scan_usdt_deposits events d = fold scan_event events (0, d)"

section \<open>USDT withdrawal request (app/api/routes/wallet.py)\<close>





section \<open>USDT withdrawal settler (app/services/usdt_withdraw_sender.py)\<close>











section \<open>Delivery verifier (app/services/order_verifier.py)\<close>

text \<open>
  Post text is a Python string: a list of Unicode code points, so that \<open>len\<close> and slices
  count what Python counts. \<open>LT\<close> and \<open>GT\<close> are the angle brackets, \<open>DOT\<close> the full stop.
\<close>

type_synonym pytext = "nat list"

definition LT :: nat where "LT = 60"
definition GT :: nat where "GT = 62"
definition DOT :: nat where "DOT = 46"

text \<open>The code points \<open>str.split()\<close> and \<open>str.strip()\<close> treat as whitespace.\<close>

definition isspace :: "nat \<Rightarrow> bool" where
  "isspace c =
     (c \<in> {9, 10, 11, 12, 13, 28, 29, 30, 31, 32, 133, 160, 5760, 8232, 8233, 8239, 8287, 12288}
      \<or> (8192 \<le> c \<and> c \<le> 8202))"

definition text_strip :: "pytext \<Rightarrow> pytext" where
  "text_strip s = rev (dropWhile isspace (rev (dropWhile isspace s)))"

text \<open>
  \<open>s.split()\<close>: the maximal runs of non-whitespace code points. \<open>w\<close> is the run being
  read, reversed.
\<close>

fun split_acc :: "pytext \<Rightarrow> pytext \<Rightarrow> pytext list" where
  "split_acc w [] = (if w = [] then [] else [rev w])"
| "split_acc w (c # cs) =
     (if isspace c then (if w = [] then split_acc [] cs else rev w # split_acc [] cs)
      else split_acc (c # w) cs)"

definition text_split :: "pytext \<Rightarrow> pytext list" where
  "text_split s = split_acc [] s"

fun join_space :: "pytext list \<Rightarrow> pytext" where
  "join_space [] = []"
| "join_space [w] = w"
| "join_space (w # w' # ws) = w @ 32 # join_space (w' # ws)"

text \<open>
  The match of \<open><[^>]+>\<close> at a \<open><\<close>: what follows the tag, when the text after the \<open><\<close>
  has at least one code point before its first \<open>>\<close>.
\<close>

definition tag_end :: "pytext \<Rightarrow> pytext option" where
  "tag_end cs =
     (let inner = takeWhile (\<lambda>c. c \<noteq> GT) cs; rest = dropWhile (\<lambda>c. c \<noteq> GT) cs
      in if inner = [] then None else if rest = [] then None else Some (tl rest))"

text \<open>\<open>re.sub(r"<[^>]+>", "", s)\<close>: the matches are removed from left to right.\<close>

function strip_tags :: "pytext \<Rightarrow> pytext" where
  "strip_tags [] = []"
| "strip_tags (c # cs) =
     (if c = LT
      then (case tag_end cs of
              Some rest \<Rightarrow> strip_tags rest
            | None \<Rightarrow> c # strip_tags cs)
      else c # strip_tags cs)"
  by pat_completeness auto
termination
proof (relation "measure length")
  show "wf (measure length)" by simp
next
  fix c :: nat and cs rest :: "nat list"
  assume "tag_end cs = Some rest"
  then have "rest = tl (dropWhile (\<lambda>c. c \<noteq> GT) cs)"
    by (simp add: tag_end_def Let_def split: if_splits)
  moreover have "length (dropWhile (\<lambda>c. c \<noteq> GT) cs) \<le> length cs"
    by (rule length_dropWhile_le)
  ultimately show "(rest, c # cs) \<in> measure length" by simp
qed simp_all

definition normalize_text :: "pytext \<Rightarrow> pytext" where
  "normalize_text s = (if s = [] then [] else text_strip (join_space (text_split (strip_tags s))))"

text \<open>The line break, line break and hashtag appended to every published post.\<close>

definition AD_SUFFIX :: pytext where
  "AD_SUFFIX = [10, 10, 35, 1056, 1077, 1082, 1083, 1072, 1084, 1072]"

definition ELLIPSIS :: pytext where
  "ELLIPSIS = [DOT, DOT, DOT]"

definition build_expected_text :: "Order \<Rightarrow> bool \<Rightarrow> pytext" where
  "build_expected_text order has_media =
     (let body = text_strip (case post_text_html order of None \<Rightarrow> [] | Some t \<Rightarrow> t);
          full = normalize_text (body @ AD_SUFFIX)
      in if has_media \<and> 1024 < length full then text_strip (take 1000 full @ ELLIPSIS)
         else full)"

definition rstrip_dots :: "pytext \<Rightarrow> pytext" where
  "rstrip_dots s = rev (dropWhile (\<lambda>c. c = DOT) (rev s))"

definition startswith :: "pytext \<Rightarrow> pytext \<Rightarrow> bool" where
  "startswith s p = (take (length p) s = p)"

definition content_matches :: "pytext \<Rightarrow> pytext \<Rightarrow> Order \<Rightarrow> bool" where
  "content_matches expected current order =
     (if expected = [] then True
      else if expected = current then True
      else if current = [] then False
      else if str_truthy (post_media_file_id order) \<and> 1024 < length expected
      then (if current = text_strip (take 1000 expected @ ELLIPSIS) then True
            else if length current \<le> 1024 \<and> startswith expected (rstrip_dots current) then True
            else False)
      else False)"

text \<open>
  \<open>bot.forward_message\<close> on a channel and a message id: the forward raised, or the
  forwarded message with its optional text and caption.
\<close>

datatype forwarded = ForwardFailed | Forwarded "pytext option" "pytext option"

definition text_truthy :: "pytext option \<Rightarrow> bool" where
  "text_truthy x = (case x of None \<Rightarrow> False | Some s \<Rightarrow> s \<noteq> [])"

text \<open>
  \<open>_fetch_post_content\<close>; \<open>verification_chat_id\<close> is the setting
  \<open>ad_verification_channel_id\<close>.
\<close>

definition fetch_post_content :: "int option \<Rightarrow> (int \<Rightarrow> int \<Rightarrow> forwarded) \<Rightarrow> int \<Rightarrow> int \<Rightarrow> bool \<times> pytext" where
  "fetch_post_content verification_chat_id forward_message channel_telegram_id message_id =
     (case verification_chat_id of
        None \<Rightarrow> (False, [])
      | Some chat \<Rightarrow>
          if chat = 0 then (False, [])
          else
            (case forward_message channel_telegram_id message_id of
               ForwardFailed \<Rightarrow> (False, [])
             | Forwarded txt caption \<Rightarrow>
                 (True, normalize_text
                          (if text_truthy txt then the txt
                           else if text_truthy caption then the caption else []))))"

text \<open>A message the bot sends to a user: the notice that the post of an order was changed.\<close>

datatype notification = PostEdited int int

definition notify_post_edited :: "Order \<Rightarrow> notification list" where
  "notify_post_edited order =
     (if buyer_telegram_id order \<noteq> 0 then [PostEdited (buyer_telegram_id order) (o_id order)]
      else [])
     @ (if seller_telegram_id order \<noteq> 0 \<and> seller_telegram_id order \<noteq> buyer_telegram_id order
        then [PostEdited (seller_telegram_id order) (o_id order)]
        else [])"

text \<open>Lines 157 to 171 of the loop: what is done with a post that could be fetched.\<close>

datatype verdict = Edited | Verified

definition check_content :: "pytext \<Rightarrow> pytext \<Rightarrow> Order \<Rightarrow> verdict" where
  "check_content expected current_text order =
     (if expected \<noteq> [] \<and> \<not> content_matches expected current_text order then Edited
      else Verified)"

text \<open>
  The state of the loop of \<open>verify_pending_orders\<close>: the database, the count of verified
  orders and the notifications sent so far.
\<close>

record verifier_state =
  vdb :: db
  verified_count :: nat
  sent :: "notification list"

definition verify_order :: "int option \<Rightarrow> (int \<Rightarrow> int \<Rightarrow> forwarded) \<Rightarrow> rat \<Rightarrow> Order \<Rightarrow> verifier_state \<Rightarrow> verifier_state" where
  "verify_order verification_chat_id forward_message now order st =
     (let d = vdb st;
          hours = (case find (\<lambda>f. fmt_id f = format_id order) (formats d) of
                     None \<Rightarrow> 24
                   | Some fmt \<Rightarrow> duration_hours fmt)
      in case done_at order of
           None \<Rightarrow> st
         | Some done_time \<Rightarrow>
             if now - done_time < of_int (hours * 3600) - 60 then st
             else
               (case find (\<lambda>c. ch_id c = channel_id order) (channels d) of
                  None \<Rightarrow> st
                | Some channel \<Rightarrow>
                    (case fetch_post_content verification_chat_id forward_message
                            (ch_telegram_id channel) (the (published_channel_message_id order)) of
                       (False, current_text) \<Rightarrow> st
                     | (True, current_text) \<Rightarrow>
                         (case check_content
                                 (build_expected_text order (str_truthy (post_media_file_id order)))
                                 current_text order of
                            Edited \<Rightarrow> st\<lparr>sent := sent st @ notify_post_edited order\<rparr>
                          | Verified \<Rightarrow>
                              st\<lparr>vdb := d\<lparr>orders := update_order (o_id order)
                                                  (\<lambda>ord. ord\<lparr>verified_at := Some now\<rparr>) (orders d)\<rparr>,
                                 verified_count := verified_count st + 1\<rparr>))))"

definition due_orders :: "db \<Rightarrow> Order list" where
  "due_orders d =
     filter (\<lambda>ord. status ord = ''done'' \<and> done_at ord \<noteq> None
                    \<and> published_channel_message_id ord \<noteq> None \<and> verified_at ord = None)
       (orders d)"

definition verify_pending_orders :: "int option \<Rightarrow> (int \<Rightarrow> int \<Rightarrow> forwarded) \<Rightarrow> rat \<Rightarrow> db \<Rightarrow> verifier_state" where
  "verify_pending_orders verification_chat_id forward_message now d =
     fold (verify_order verification_chat_id forward_message now) (due_orders d)
       \<lparr>vdb = d, verified_count = 0, sent = []\<rparr>"

section \<open>Escrow call sequences and sample data\<close>

text \<open>What a balance row holds: available plus frozen.\<close>

definition funds :: "UserBalance \<Rightarrow> rat" where
  "funds b = available b + frozen b"

text \<open>The funds of one currency over all rows of the balance table.\<close>

definition total_funds :: "string \<Rightarrow> UserBalance list \<Rightarrow> rat" where
  "total_funds cur bs = sum_list (map funds (filter (\<lambda>b. b_currency b = cur) bs))"

datatype escrow_call = Freeze int string rat | Release int | Refund int

fun run_call :: "escrow_call \<Rightarrow> db \<Rightarrow> bool \<times> db" where
  "run_call (Freeze tid cur amt) d = freeze_for_order tid cur amt d"
| "run_call (Release oid) d = release_to_seller oid d"
| "run_call (Refund oid) d = refund_to_buyer oid d"

definition run_calls :: "escrow_call list \<Rightarrow> db \<Rightarrow> db" where
  "run_calls cs d = fold (\<lambda>c d. snd (run_call c d)) cs d"

text \<open>Sample rows: buyer 1, seller 2, channel 1 with one format priced 30 USDT.\<close>

definition demo_balance :: "int \<Rightarrow> string \<Rightarrow> rat \<Rightarrow> rat \<Rightarrow> UserBalance" where
  "demo_balance tid cur a f =
     \<lparr>b_telegram_id = tid, b_currency = cur, available = a, frozen = f,
      total_deposited = 0, total_withdrawn = 0\<rparr>"

definition demo_order :: "int \<Rightarrow> string \<Rightarrow> rat \<Rightarrow> Order" where
  "demo_order oid st amt =
     \<lparr>o_id = oid, channel_id = 1, format_id = 1, buyer_telegram_id = 1, seller_telegram_id = 2,
      status = st, payment_currency = Some ''usdt'', payment_amount = Some amt,
      post_text_html = None, post_media_file_id = None, post_token = None,
      seller_revision_comment = None, done_at = None, published_post_link = None,
      published_channel_message_id = None, verified_at = None\<rparr>"

definition demo_channel :: Channel where
  "demo_channel = \<lparr>ch_id = 1, ch_telegram_id = -100, owner_telegram_id = 2,
      ch_status = ''active'', is_visible = True\<rparr>"

definition demo_format :: ChannelAdFormat where
  "demo_format = \<lparr>fmt_id = 1, fmt_channel_id = 1, is_enabled = True, price_stars = 0,
      price_usdt = Some 30, duration_hours = 24\<rparr>"

definition demo_db :: "Order list \<Rightarrow> UserBalance list \<Rightarrow> db" where
  "demo_db os bs = \<lparr>users = [1, 2], orders = os, balances = bs, usdt_transactions = [],
      channels = [demo_channel], formats = [demo_format], ton_usd_price = None\<rparr>"

text \<open>An update of a balance row that leaves its account and currency alone.\<close>

definition keeps_key :: "(UserBalance \<Rightarrow> UserBalance) \<Rightarrow> bool" where
  "keeps_key f = (\<forall>b. b_telegram_id (f b) = b_telegram_id b \<and> b_currency (f b) = b_currency b)"

text \<open>
  An order done at time 0 whose post, \<open>Hi\<close>, was published as message 55 of the channel.
\<close>

definition demo_due_order :: Order where
  "demo_due_order = (demo_order 7 ''done'' 30)\<lparr>done_at := Some 0,
      published_channel_message_id := Some 55, post_text_html := Some [72, 105]\<rparr>"

section \<open>Deposit ledger quantities\<close>

text \<open>The available USDT of an account, over its balance rows.\<close>

definition usdt_available :: "int \<Rightarrow> UserBalance list \<Rightarrow> rat" where
  "usdt_available tid bs = sum_list (map available (filter (balance_key tid ''usdt'') bs))"

text \<open>The amounts of the deposit records of an account.\<close>

definition recorded_deposits :: "int \<Rightarrow> UsdtTransaction list \<Rightarrow> rat" where
  "recorded_deposits tid ts =
     sum_list (map amount (filter (\<lambda>t. tx_telegram_id t = tid \<and> tx_type t = ''deposit'') ts))"

text \<open>An event the scan passes over without touching the database.\<close>

definition settled :: "event \<Rightarrow> db \<Rightarrow> bool" where
  "settled ev d =
     (if event_key ev = [] then True
      else if already_processed (PREFIX @ event_key ev) d then True
      else case first_transfer (ev_actions ev) of
             None \<Rightarrow> True
           | Some (tid, amt) \<Rightarrow> 2 \<le> length (filter (balance_key tid ''usdt'') (balances d)))"

text \<open>The record table only gets longer and no account loses a USDT balance row.\<close>

definition grows :: "db \<Rightarrow> db \<Rightarrow> bool" where
  "grows d d' =
     ((\<exists>new. usdt_transactions d' = usdt_transactions d @ new)
      \<and> (\<forall>t. length (filter (balance_key t ''usdt'') (balances d))
              \<le> length (filter (balance_key t ''usdt'') (balances d'))))"

text \<open>A sample transfer action with a raw amount and a comment, and an event holding it.\<close>

definition demo_transfer :: "int \<Rightarrow> string \<Rightarrow> action" where
  "demo_transfer raw comment =
     \<lparr>a_type = ''JettonTransfer'',
      a_nested = Some \<lparr>f_amount = Some raw, f_comment = Some (CStr comment),
                       f_decrypted_payload = None, f_payload = None\<rparr>,
      a_flat = \<lparr>f_amount = None, f_comment = None, f_decrypted_payload = None, f_payload = None\<rparr>\<rparr>"

definition demo_event :: "string \<Rightarrow> int \<Rightarrow> string \<Rightarrow> event" where
  "demo_event eid raw comment =
     \<lparr>ev_event_id = Some eid, ev_hash = None, ev_lt = [], ev_actions = [demo_transfer raw comment]\<rparr>"




section \<open>Properties\<close>

subsection \<open>Queries and updates of the balance table\<close>

lemma scalar_one_Some: "scalar_one_or_none xs = Inr (Some b) \<longleftrightarrow> xs = [b]"
  by (cases xs rule: scalar_one_or_none.cases) auto

lemma scalar_one_None: "scalar_one_or_none xs = Inr None \<longleftrightarrow> xs = []"
  by (cases xs rule: scalar_one_or_none.cases) auto

lemma select_balance_Some:
  "select_balance bs t c = Inr (Some b) \<longleftrightarrow> filter (balance_key t c) bs = [b]"
  by (simp add: select_balance_def scalar_one_Some)

lemma select_balance_None:
  "select_balance bs t c = Inr None \<longleftrightarrow> filter (balance_key t c) bs = []"
  by (simp add: select_balance_def scalar_one_None)

lemma filter_key_update:
  "keeps_key f \<Longrightarrow> filter (balance_key t c) (update_balance t' c' f bs)
     = map (\<lambda>b. if balance_key t' c' b then f b else b) (filter (balance_key t c) bs)"
  by (induction bs) (auto simp: update_balance_def balance_key_def keeps_key_def)

lemma filter_others_update:
  "keeps_key f \<Longrightarrow> filter (\<lambda>b. \<not> balance_key t c b) (update_balance t c f bs)
     = filter (\<lambda>b. \<not> balance_key t c b) bs"
  by (induction bs) (auto simp: update_balance_def balance_key_def keeps_key_def)

lemma total_funds_update:
  "keeps_key f \<Longrightarrow> total_funds cur (update_balance t c f bs)
     = total_funds cur bs
       + sum_list (map (\<lambda>b. funds (f b) - funds b)
           (filter (\<lambda>b. b_currency b = cur) (filter (balance_key t c) bs)))"
  by (induction bs) (auto simp: update_balance_def total_funds_def keeps_key_def)

lemma total_funds_update_one:
  assumes "keeps_key f" "filter (balance_key t c) bs = [b]"
  shows "total_funds cur (update_balance t c f bs)
     = total_funds cur bs + (if c = cur then funds (f b) - funds b else 0)"
proof -
  have "b \<in> set (filter (balance_key t c) bs)" using assms(2) by simp
  then have "b_currency b = c" by (simp add: balance_key_def)
  then show ?thesis using assms by (simp add: total_funds_update)
qed

lemma total_funds_append:
  "total_funds cur (bs @ [b]) = total_funds cur bs + (if b_currency b = cur then funds b else 0)"
  by (simp add: total_funds_def)

subsection \<open>Conservation\<close>

lemma freeze_total:
  "total_funds cur (balances (snd (freeze_for_order t c a d))) = total_funds cur (balances d)"
  by (auto simp: freeze_for_order_def select_balance_Some total_funds_update_one keeps_key_def
      funds_def split: sum.splits option.splits)

lemma refund_total:
  "total_funds cur (balances (snd (refund_to_buyer oid d))) = total_funds cur (balances d)"
  by (auto simp: refund_to_buyer_def select_balance_Some total_funds_update_one keeps_key_def
      funds_def split: sum.splits option.splits prod.splits)

lemma release_total:
  "total_funds cur (balances (snd (release_to_seller oid d))) = total_funds cur (balances d)"
  by (auto simp: release_to_seller_def Let_def select_balance_Some total_funds_update_one
      total_funds_append keeps_key_def funds_def new_seller_balance_def
      split: sum.splits option.splits prod.splits)

lemma run_call_total:
  "total_funds cur (balances (snd (run_call c d))) = total_funds cur (balances d)"
  by (cases c) (simp_all add: freeze_total release_total refund_total)

lemma run_calls_total:
  "total_funds cur (balances (run_calls cs d)) = total_funds cur (balances d)"
  unfolding run_calls_def
  by (induction cs arbitrary: d) (simp_all add: run_call_total)

text \<open>
  C2. Escrow calls conserve funds: a single call of \<open>freeze_for_order\<close>,
  \<open>release_to_seller\<close> or \<open>refund_to_buyer\<close>, successful or not, leaves the sum of
  available plus frozen over all balance rows of every currency as it was, and so does
  every sequence of such calls.
\<close>

theorem escrow_conservation:
  "total_funds cur (balances (snd (run_call c d))) = total_funds cur (balances d)
   \<and> total_funds cur (balances (run_calls cs d)) = total_funds cur (balances d)"
  by (simp add: run_call_total run_calls_total)

theorem escrow_conservation_witness:
  "total_funds ''usdt'' (balances (run_calls [Freeze 1 ''usdt'' 30, Release 7, Refund 7]
      (demo_db [demo_order 7 ''done'' 30] [demo_balance 1 ''usdt'' 100 0]))) = 100
   \<and> balances (run_calls [Freeze 1 ''usdt'' 30, Release 7, Refund 7]
      (demo_db [demo_order 7 ''done'' 30] [demo_balance 1 ''usdt'' 100 0]))
     = [demo_balance 1 ''usdt'' 70 0, new_seller_balance 2 ''usdt'' 30]"
  using escrow_conservation [of "''usdt''" "Release 7"
      "demo_db [demo_order 7 ''done'' 30] [demo_balance 1 ''usdt'' 100 0]"
      "[Freeze 1 ''usdt'' 30, Release 7, Refund 7]"]
  by (simp add: run_calls_def demo_db_def demo_order_def demo_balance_def freeze_for_order_def
     release_to_seller_def refund_to_buyer_def select_balance_def balance_key_def
     update_balance_def select_order_def order_payment_def new_seller_balance_def
     total_funds_def funds_def)

subsection \<open>Freeze\<close>

lemma keeps_key_freeze: "keeps_key (\<lambda>b. b\<lparr>available := available b - amt, frozen := frozen b + amt\<rparr>)"
  by (simp add: keeps_key_def)

lemma freeze_False: "fst (freeze_for_order tid cur amt d) = False \<Longrightarrow> freeze_for_order tid cur amt d = (False, d)"
  by (auto simp: freeze_for_order_def split: sum.splits option.splits if_splits)

lemma filter_single_holds: "filter P xs = [b] \<Longrightarrow> P b"
proof -
  assume "filter P xs = [b]"
  then have "b \<in> set (filter P xs)" by simp
  then show "P b" by simp
qed

lemma freeze_insufficient:
  "select_balance (balances d) tid cur = Inr None
   \<or> (\<exists>bal. select_balance (balances d) tid cur = Inr (Some bal) \<and> available bal < amt)
   \<Longrightarrow> freeze_for_order tid cur amt d = (False, d)"
  by (auto simp: freeze_for_order_def)

lemma freeze_sufficient:
  assumes "select_balance (balances d) tid cur = Inr (Some bal)" "amt \<le> available bal"
  shows "freeze_for_order tid cur amt d = (True, d\<lparr>balances := update_balance tid cur
                    (\<lambda>b. b\<lparr>available := available b - amt, frozen := frozen b + amt\<rparr>)
                    (balances d)\<rparr>)"
  using assms by (simp add: freeze_for_order_def)

lemma freeze_sufficient_row:
  assumes "select_balance (balances d) tid cur = Inr (Some bal)" "amt \<le> available bal"
  shows "select_balance (balances (snd (freeze_for_order tid cur amt d))) tid cur
           = Inr (Some (bal\<lparr>available := available bal - amt, frozen := frozen bal + amt\<rparr>))"
  using assms
  by (auto simp: freeze_sufficient select_balance_Some filter_key_update keeps_key_freeze
      dest: filter_single_holds)

lemma freeze_sufficient_others:
  assumes "select_balance (balances d) tid cur = Inr (Some bal)" "amt \<le> available bal"
  shows "filter (\<lambda>b. \<not> balance_key tid cur b) (balances (snd (freeze_for_order tid cur amt d)))
           = filter (\<lambda>b. \<not> balance_key tid cur b) (balances d)"
  using assms
  by (simp add: freeze_sufficient filter_others_update keeps_key_freeze)

lemma create_order_no_row:
  assumes "currency \<in> {''stars'', ''usdt'', ''ton''}"
     "find (\<lambda>c. ch_id c = channelId \<and> ch_status c = ''active'' \<and> is_visible c) (channels d) = Some channel"
     "owner_telegram_id channel \<noteq> telegram_id"
     "find (\<lambda>f. fmt_id f = formatId \<and> fmt_channel_id f = channelId \<and> is_enabled f) (formats d) = Some fmt"
     "order_amount currency fmt d = Inr amt"
     "fst (freeze_for_order telegram_id currency amt d) = False"
  shows "\<exists>e. create_order channelId formatId currency telegram_id token d = (Inl e, d)"
proof -
  have "freeze_for_order telegram_id currency amt d = (False, d)"
    using assms(6) by (rule freeze_False)
  then show ?thesis using assms(1-5) by (simp add: create_order_def split: sum.splits)
qed

text \<open>
  C6. \<open>freeze_for_order\<close> returns \<open>False\<close> and leaves the database as it was when the
  account has no balance row in the currency or its available balance is below the amount
  (whenever it returns \<open>False\<close>, nothing has changed). Otherwise it returns \<open>True\<close>, the
  account's row has the amount moved from available to frozen, and every other row and the
  order table are untouched. \<open>create_order\<close> answers with an error and leaves the
  database as it was, so no order row is inserted, when the freeze of the format's price
  returns \<open>False\<close>.
\<close>

theorem freeze_semantics:
  "(fst (freeze_for_order tid cur amt d) = False \<longrightarrow> freeze_for_order tid cur amt d = (False, d))
   \<and> (select_balance (balances d) tid cur = Inr None
        \<longrightarrow> freeze_for_order tid cur amt d = (False, d))
   \<and> (select_balance (balances d) tid cur = Inr (Some bal) \<and> available bal < amt
        \<longrightarrow> freeze_for_order tid cur amt d = (False, d))
   \<and> (select_balance (balances d) tid cur = Inr (Some bal) \<and> amt \<le> available bal
        \<longrightarrow> fst (freeze_for_order tid cur amt d) = True
            \<and> select_balance (balances (snd (freeze_for_order tid cur amt d))) tid cur
                = Inr (Some (bal\<lparr>available := available bal - amt, frozen := frozen bal + amt\<rparr>))
            \<and> filter (\<lambda>b. \<not> balance_key tid cur b) (balances (snd (freeze_for_order tid cur amt d)))
                = filter (\<lambda>b. \<not> balance_key tid cur b) (balances d)
            \<and> orders (snd (freeze_for_order tid cur amt d)) = orders d)
   \<and> (cur \<in> {''stars'', ''usdt'', ''ton''}
        \<and> find (\<lambda>c. ch_id c = channelId \<and> ch_status c = ''active'' \<and> is_visible c) (channels d)
            = Some channel
        \<and> owner_telegram_id channel \<noteq> tid
        \<and> find (\<lambda>f. fmt_id f = formatId \<and> fmt_channel_id f = channelId \<and> is_enabled f) (formats d)
            = Some fmt
        \<and> order_amount cur fmt d = Inr amt
        \<and> fst (freeze_for_order tid cur amt d) = False
        \<longrightarrow> (\<exists>e. create_order channelId formatId cur tid token d = (Inl e, d)))"
proof (intro conjI impI)
  show "freeze_for_order tid cur amt d = (False, d)" if "fst (freeze_for_order tid cur amt d) = False"
    using that by (rule freeze_False)
  show "freeze_for_order tid cur amt d = (False, d)" if "select_balance (balances d) tid cur = Inr None"
    using that by (simp add: freeze_insufficient)
  show "freeze_for_order tid cur amt d = (False, d)"
    if "select_balance (balances d) tid cur = Inr (Some bal) \<and> available bal < amt"
    using that by (simp add: freeze_for_order_def)
next
  assume a: "select_balance (balances d) tid cur = Inr (Some bal) \<and> amt \<le> available bal"
  then show "fst (freeze_for_order tid cur amt d) = True" by (simp add: freeze_sufficient)
  from a show "select_balance (balances (snd (freeze_for_order tid cur amt d))) tid cur
                = Inr (Some (bal\<lparr>available := available bal - amt, frozen := frozen bal + amt\<rparr>))"
    by (simp add: freeze_sufficient_row)
  from a show "filter (\<lambda>b. \<not> balance_key tid cur b) (balances (snd (freeze_for_order tid cur amt d)))
                = filter (\<lambda>b. \<not> balance_key tid cur b) (balances d)"
    by (simp add: freeze_sufficient_others)
  from a show "orders (snd (freeze_for_order tid cur amt d)) = orders d"
    by (simp add: freeze_sufficient)
next
  assume "cur \<in> {''stars'', ''usdt'', ''ton''}
        \<and> find (\<lambda>c. ch_id c = channelId \<and> ch_status c = ''active'' \<and> is_visible c) (channels d)
            = Some channel
        \<and> owner_telegram_id channel \<noteq> tid
        \<and> find (\<lambda>f. fmt_id f = formatId \<and> fmt_channel_id f = channelId \<and> is_enabled f) (formats d)
            = Some fmt
        \<and> order_amount cur fmt d = Inr amt
        \<and> fst (freeze_for_order tid cur amt d) = False"
  then show "\<exists>e. create_order channelId formatId cur tid token d = (Inl e, d)"
    using create_order_no_row [of cur channelId d channel tid formatId fmt amt token] by blast
qed

lemmas demo_defs = demo_db_def demo_order_def demo_balance_def demo_channel_def demo_format_def
  select_balance_def balance_key_def update_balance_def select_order_def update_order_def order_payment_def
  new_seller_balance_def

theorem freeze_semantics_witness:
  "freeze_for_order 3 ''usdt'' 30 (demo_db [] [demo_balance 1 ''usdt'' 100 0])
     = (False, demo_db [] [demo_balance 1 ''usdt'' 100 0])
   \<and> freeze_for_order 1 ''usdt'' 130 (demo_db [] [demo_balance 1 ''usdt'' 100 0])
     = (False, demo_db [] [demo_balance 1 ''usdt'' 100 0])
   \<and> freeze_for_order 1 ''usdt'' 30 (demo_db [] [demo_balance 1 ''usdt'' 100 0])
     = (True, demo_db [] [demo_balance 1 ''usdt'' 70 30])
   \<and> create_order 1 1 ''usdt'' 1 ''a1b2c3d4'' (demo_db [] [demo_balance 1 ''usdt'' 10 0])
     = (Inl (HTTPException 400), demo_db [] [demo_balance 1 ''usdt'' 10 0])"
  using
    freeze_semantics [of 3 "''usdt''" 30 "demo_db [] [demo_balance 1 ''usdt'' 100 0]"
       "demo_balance 1 ''usdt'' 100 0" 1 demo_channel 1 demo_format "''a1b2c3d4''"]
    freeze_semantics [of 1 "''usdt''" 130 "demo_db [] [demo_balance 1 ''usdt'' 100 0]"
       "demo_balance 1 ''usdt'' 100 0" 1 demo_channel 1 demo_format "''a1b2c3d4''"]
    freeze_semantics [of 1 "''usdt''" 30 "demo_db [] [demo_balance 1 ''usdt'' 100 0]"
       "demo_balance 1 ''usdt'' 100 0" 1 demo_channel 1 demo_format "''a1b2c3d4''"]
    freeze_semantics [of 1 "''usdt''" 30 "demo_db [] [demo_balance 1 ''usdt'' 10 0]"
       "demo_balance 1 ''usdt'' 10 0" 1 demo_channel 1 demo_format "''a1b2c3d4''"]
  by (simp add: demo_defs freeze_for_order_def order_amount_def create_order_def)

subsection \<open>Terminal orders\<close>

lemma cancel_order_terminal:
  "select_order (orders d) oid = Some order \<Longrightarrow> status order \<in> {''done'', ''cancelled''} \<Longrightarrow>
   snd (cancel_order oid tid d) = d \<and> (\<exists>e. fst (cancel_order oid tid d) = Inl e)"
  by (auto simp: cancel_order_def)

lemma approve_terminal:
  "select_order (orders d) oid = Some order \<Longrightarrow> status order \<in> {''done'', ''cancelled''} \<Longrightarrow>
   snd (cb_seller_approve oid publish now d) = d
   \<and> fst (cb_seller_approve oid publish now d) \<in> {[Answer OrderNotFound], [Answer AlreadyProcessed]}"
  by (auto simp: cb_seller_approve_def split: option.splits)

text \<open>
  C1. An order that is \<open>done\<close> (order 7, 30 USDT, already released) while its buyer has
  30 USDT frozen for another order (order 8): the seller's decline callback is not
  rejected. It answers that the order is declined, sets the status to \<open>cancelled\<close> and
  refunds 30 USDT from the buyer's frozen balance to the available one. The seller's
  revision comment on a \<open>done\<close> order is accepted too and sets the status back to
  \<open>writing_post\<close>.
\<close>

theorem seller_decline_of_done_order:
  "status (demo_order 7 ''done'' 30) = ''done''
   \<and> cb_seller_decline 7
        (demo_db [demo_order 7 ''done'' 30, demo_order 8 ''pending_seller'' 30]
           [demo_balance 1 ''usdt'' 50 30, demo_balance 2 ''usdt'' 30 0])
     = ([CommitStatus 7 ''cancelled'', LedgerRefund 7, Answer OrderDeclined],
        demo_db [demo_order 7 ''cancelled'' 30, demo_order 8 ''pending_seller'' 30]
           [demo_balance 1 ''usdt'' 80 0, demo_balance 2 ''usdt'' 30 0])
   \<and> on_seller_comment 7 ''shorter''
        (demo_db [demo_order 7 ''done'' 30] [demo_balance 1 ''usdt'' 50 0])
     = ([CommitStatus 7 ''writing_post'', Answer CommentSent],
        demo_db [(demo_order 7 ''writing_post'' 30)\<lparr>seller_revision_comment := Some ''shorter''\<rparr>]
          [demo_balance 1 ''usdt'' 50 0])"
  by (simp add: cb_seller_decline_def set_order_cancelled_def refund_to_buyer_def
      on_seller_comment_def set_order_revision_def demo_defs)

subsection \<open>Seller approval\<close>

lemma approve_publish_failed:
  assumes "select_order (orders d) oid = Some order"
    "find (\<lambda>c. ch_id c = channel_id order) (channels d) = Some channel"
    "status order = ''pending_seller''" "publish order channel = None"
  shows "cb_seller_approve oid publish now d = ([Publish oid, Answer PublishFailed], d)"
  using assms by (simp add: cb_seller_approve_def)

lemma approve_changes_need_publish:
  assumes "snd (cb_seller_approve oid publish now d) \<noteq> d"
  shows "\<exists>order channel link msg. select_order (orders d) oid = Some order
     \<and> find (\<lambda>c. ch_id c = channel_id order) (channels d) = Some channel
     \<and> status order = ''pending_seller''
     \<and> publish order channel = Some (link, msg)
     \<and> cb_seller_approve oid publish now d =
          ([Publish oid, CommitStatus oid ''done'', LedgerRelease oid, Answer OrderCompleted],
           snd (set_order_done oid link msg now d))"
  using assms
  by (auto simp: cb_seller_approve_def set_order_done_def Let_def split: option.splits if_splits prod.splits bool.splits)

lemma approve_order_of_effects:
  "fst (cb_seller_approve oid publish now d) \<in>
     {[Answer OrderNotFound], [Answer AlreadyProcessed], [Publish oid, Answer PublishFailed],
      [Publish oid, CommitStatus oid ''done'', LedgerRelease oid, Answer OrderCompleted],
      [Publish oid, Answer StatusUpdateFailed]}"
  by (auto simp: cb_seller_approve_def split: option.splits if_splits prod.splits bool.splits)
text \<open>
  C5. In \<open>cb_seller_approve\<close> the publish comes first. When it fails the callback answers
  so and the database is the one it started from: the order is still \<open>pending_seller\<close>
  and nothing was released, so the seller can approve again. The database changes only
  when the order was \<open>pending_seller\<close> and the publish succeeded, and neither the commit
  of \<open>done\<close> nor the release occurs before the publish among the callback's effects.
\<close>

theorem publish_before_done:
  "(select_order (orders d) oid = Some order
      \<and> find (\<lambda>c. ch_id c = channel_id order) (channels d) = Some channel
      \<and> status order = ''pending_seller'' \<and> publish order channel = None
      \<longrightarrow> cb_seller_approve oid publish now d = ([Publish oid, Answer PublishFailed], d))
   \<and> (snd (cb_seller_approve oid publish now d) \<noteq> d
      \<longrightarrow> (\<exists>order channel link msg.
             select_order (orders d) oid = Some order
             \<and> find (\<lambda>c. ch_id c = channel_id order) (channels d) = Some channel
             \<and> status order = ''pending_seller''
             \<and> publish order channel = Some (link, msg)
             \<and> cb_seller_approve oid publish now d =
                 ([Publish oid, CommitStatus oid ''done'', LedgerRelease oid, Answer OrderCompleted],
                  snd (set_order_done oid link msg now d))))
   \<and> CommitStatus oid ''done''
        \<notin> set (takeWhile (\<lambda>e. e \<noteq> Publish oid) (fst (cb_seller_approve oid publish now d)))
   \<and> LedgerRelease oid
        \<notin> set (takeWhile (\<lambda>e. e \<noteq> Publish oid) (fst (cb_seller_approve oid publish now d)))"
proof (intro conjI impI)
  assume "select_order (orders d) oid = Some order
      \<and> find (\<lambda>c. ch_id c = channel_id order) (channels d) = Some channel
      \<and> status order = ''pending_seller'' \<and> publish order channel = None"
  then show "cb_seller_approve oid publish now d = ([Publish oid, Answer PublishFailed], d)"
    by (simp add: approve_publish_failed)
next
  assume "snd (cb_seller_approve oid publish now d) \<noteq> d"
  then show "\<exists>order channel link msg.
             select_order (orders d) oid = Some order
             \<and> find (\<lambda>c. ch_id c = channel_id order) (channels d) = Some channel
             \<and> status order = ''pending_seller''
             \<and> publish order channel = Some (link, msg)
             \<and> cb_seller_approve oid publish now d =
                 ([Publish oid, CommitStatus oid ''done'', LedgerRelease oid, Answer OrderCompleted],
                  snd (set_order_done oid link msg now d))"
    by (rule approve_changes_need_publish)
next
  show "CommitStatus oid ''done''
        \<notin> set (takeWhile (\<lambda>e. e \<noteq> Publish oid) (fst (cb_seller_approve oid publish now d)))"
    using approve_order_of_effects [of oid publish now d] by auto
  show "LedgerRelease oid
        \<notin> set (takeWhile (\<lambda>e. e \<noteq> Publish oid) (fst (cb_seller_approve oid publish now d)))"
    using approve_order_of_effects [of oid publish now d] by auto
qed

theorem publish_before_done_witness:
  "cb_seller_approve 7 (\<lambda>ord ch. None) 1000
      (demo_db [demo_order 7 ''pending_seller'' 30] [demo_balance 1 ''usdt'' 70 30])
     = ([Publish 7, Answer PublishFailed],
        demo_db [demo_order 7 ''pending_seller'' 30] [demo_balance 1 ''usdt'' 70 30])
   \<and> cb_seller_approve 7 (\<lambda>ord ch. Some (None, Some 55)) 1000
      (demo_db [demo_order 7 ''pending_seller'' 30] [demo_balance 1 ''usdt'' 70 30])
     = ([Publish 7, CommitStatus 7 ''done'', LedgerRelease 7, Answer OrderCompleted],
        demo_db [(demo_order 7 ''done'' 30)\<lparr>done_at := Some 1000,
                    published_channel_message_id := Some 55\<rparr>]
          [demo_balance 1 ''usdt'' 70 0, demo_balance 2 ''usdt'' 30 0])"
  using
    publish_before_done [of "demo_db [demo_order 7 ''pending_seller'' 30] [demo_balance 1 ''usdt'' 70 30]"
      7 "demo_order 7 ''pending_seller'' 30" demo_channel "\<lambda>ord ch. None" 1000]
    publish_before_done [of "demo_db [demo_order 7 ''pending_seller'' 30] [demo_balance 1 ''usdt'' 70 30]"
      7 "demo_order 7 ''pending_seller'' 30" demo_channel "\<lambda>ord ch. Some (None, Some 55)" 1000]
  by (simp add: cb_seller_approve_def set_order_done_def release_to_seller_def demo_defs)

subsection \<open>Delivery verification\<close>

text \<open>
  C9. A due order (done at 0, 24 hours, checked at 90000 seconds, not verified) whose
  message cannot be forwarded any more: \<open>verified_at\<close> stays unset, and no notification is
  sent to the buyer or the seller.
\<close>

theorem missing_post_not_notified:
  "due_orders (demo_db [demo_due_order] []) = [demo_due_order]
   \<and> fetch_post_content (Some (-200)) (\<lambda>chat msg. ForwardFailed) (-100) 55 = (False, [])
   \<and> verify_pending_orders (Some (-200)) (\<lambda>chat msg. ForwardFailed) 90000 (demo_db [demo_due_order] [])
     = \<lparr>vdb = demo_db [demo_due_order] [], verified_count = 0, sent = []\<rparr>"
  by (simp add: verify_pending_orders_def due_orders_def verify_order_def fetch_post_content_def
      demo_due_order_def demo_defs)

text \<open>The same order when the message is still there with another text: both are told.\<close>

lemma edited_notified:
  "verify_pending_orders (Some (-200)) (\<lambda>chat msg. Forwarded (Some [66, 121, 101]) None) 90000 (demo_db [demo_due_order] [])
     = \<lparr>vdb = demo_db [demo_due_order] [], verified_count = 0, sent = [PostEdited 1 7, PostEdited 2 7]\<rparr>"
  by (simp add: verify_pending_orders_def due_orders_def verify_order_def fetch_post_content_def
      demo_due_order_def demo_defs check_content_def content_matches_def build_expected_text_def
      normalize_text_def text_strip_def text_split_def tag_end_def isspace_def AD_SUFFIX_def
      LT_def GT_def text_truthy_def str_truthy_def notify_post_edited_def)


subsection \<open>Deposit scanner\<close>

lemma select_balance_Inl:
  "select_balance bs t c = Inl e \<longleftrightarrow> (2 \<le> length (filter (balance_key t c) bs) \<and> e = MultipleResultsFound)"
  unfolding select_balance_def
  by (cases "filter (balance_key t c) bs" rule: scalar_one_or_none.cases) auto

lemma keeps_key_credit:
  "keeps_key (\<lambda>b. b\<lparr>available := available b + amt, total_deposited := total_deposited b + amt\<rparr>)"
  by (simp add: keeps_key_def)

lemma credit_usdt_False: "\<not> fst (credit_usdt tid amt eid d) \<Longrightarrow> snd (credit_usdt tid amt eid d) = d"
  by (auto simp: credit_usdt_def Let_def split: sum.splits option.splits if_splits)

lemma credit_usdt_True:
  assumes "fst (credit_usdt tid amt eid d)"
  shows "\<not> already_processed eid d"
    and "usdt_transactions (snd (credit_usdt tid amt eid d)) = usdt_transactions d @ [deposit_record eid tid amt]"
    and "length (filter (balance_key tid ''usdt'') (balances d)) \<le> 1"
    and "balances (snd (credit_usdt tid amt eid d)) =
          (if filter (balance_key tid ''usdt'') (balances d) = []
           then balances d @ [new_usdt_balance tid amt]
           else update_balance tid ''usdt''
                  (\<lambda>b. b\<lparr>available := available b + amt, total_deposited := total_deposited b + amt\<rparr>)
                  (balances d))"
  using assms
  by (auto simp: credit_usdt_def Let_def select_balance_Some select_balance_None
      split: sum.splits option.splits if_splits)

lemma credit_usdt_False_why:
  "\<not> fst (credit_usdt tid amt eid d) \<Longrightarrow> \<not> already_processed eid d
   \<Longrightarrow> 2 \<le> length (filter (balance_key tid ''usdt'') (balances d))"
  by (auto simp: credit_usdt_def Let_def select_balance_Inl split: sum.splits option.splits if_splits)

lemma credit_usdt_multi:
  "2 \<le> length (filter (balance_key tid ''usdt'') (balances d)) \<Longrightarrow> credit_usdt tid amt eid d = (False, d)"
proof -
  assume "2 \<le> length (filter (balance_key tid ''usdt'') (balances d))"
  then have "select_balance (balances d) tid ''usdt'' = Inl MultipleResultsFound"
    by (simp add: select_balance_Inl)
  then show ?thesis by (simp add: credit_usdt_def)
qed

lemma scan_event_unfold:
  "scan_event ev (c, d) =
     (if event_key ev = [] then (c, d)
      else if already_processed (PREFIX @ event_key ev) d then (c, d)
      else case first_transfer (ev_actions ev) of
             None \<Rightarrow> (c, d)
           | Some (tid, amt) \<Rightarrow>
               if fst (credit_usdt tid amt (PREFIX @ event_key ev) d)
               then (c + 1, snd (credit_usdt tid amt (PREFIX @ event_key ev) d))
               else (c, snd (credit_usdt tid amt (PREFIX @ event_key ev) d)))"
  by (simp add: scan_event_def Let_def split: prod.splits bool.splits option.splits)

lemma scan_event_cases:
  "scan_event ev (c, d) = (c, d)
   \<or> (\<exists>tid amt. event_key ev \<noteq> [] \<and> \<not> already_processed (PREFIX @ event_key ev) d
         \<and> first_transfer (ev_actions ev) = Some (tid, amt)
         \<and> fst (credit_usdt tid amt (PREFIX @ event_key ev) d)
         \<and> scan_event ev (c, d) = (c + 1, snd (credit_usdt tid amt (PREFIX @ event_key ev) d)))"
proof -
  consider (a) "event_key ev = []" | (b) "event_key ev \<noteq> []" "already_processed (PREFIX @ event_key ev) d"
    | (c) "event_key ev \<noteq> []" "\<not> already_processed (PREFIX @ event_key ev) d" "first_transfer (ev_actions ev) = None"
    | (d) tid amt where "event_key ev \<noteq> []" "\<not> already_processed (PREFIX @ event_key ev) d"
        "first_transfer (ev_actions ev) = Some (tid, amt)"
    by (cases "first_transfer (ev_actions ev)") auto
  then show ?thesis
  proof cases
    case a then show ?thesis by (simp add: scan_event_unfold)
  next
    case b then show ?thesis by (simp add: scan_event_unfold)
  next
    case c then show ?thesis by (simp add: scan_event_unfold)
  next
    case d
    show ?thesis
    proof (cases "fst (credit_usdt tid amt (PREFIX @ event_key ev) d)")
      case True
      then have "scan_event ev (c, d) = (c + 1, snd (credit_usdt tid amt (PREFIX @ event_key ev) d))"
        using d by (simp add: scan_event_unfold)
      then show ?thesis using d True by blast
    next
      case False
      then have "snd (credit_usdt tid amt (PREFIX @ event_key ev) d) = d"
        by (simp add: credit_usdt_False)
      then have "scan_event ev (c, d) = (c, d)"
        using d False by (simp add: scan_event_unfold)
      then show ?thesis by simp
    qed
  qed
qed

lemma grows_refl: "grows d d"
  by (simp add: grows_def)

lemma credit_grows: "grows d (snd (credit_usdt tid amt eid d))"
proof (cases "fst (credit_usdt tid amt eid d)")
  case True
  note t = credit_usdt_True [OF True]
  show ?thesis
    unfolding grows_def
    by (simp add: t(2) t(4) filter_key_update keeps_key_credit)
next
  case False
  then show ?thesis by (simp add: credit_usdt_False grows_refl)
qed

lemma scan_event_grows: "grows d (snd (scan_event ev (c, d)))"
proof -
  from scan_event_cases [of ev c d] show ?thesis
  proof
    assume "scan_event ev (c, d) = (c, d)"
    then show ?thesis by (simp add: grows_refl)
  next
    assume "\<exists>tid amt. event_key ev \<noteq> [] \<and> \<not> already_processed (PREFIX @ event_key ev) d
         \<and> first_transfer (ev_actions ev) = Some (tid, amt)
         \<and> fst (credit_usdt tid amt (PREFIX @ event_key ev) d)
         \<and> scan_event ev (c, d) = (c + 1, snd (credit_usdt tid amt (PREFIX @ event_key ev) d))"
    then obtain tid amt where
      "scan_event ev (c, d) = (c + 1, snd (credit_usdt tid amt (PREFIX @ event_key ev) d))"
      by blast
    then show ?thesis by (simp add: credit_grows)
  qed
qed

lemma already_processed_append:
  "already_processed eid d \<Longrightarrow> usdt_transactions d' = usdt_transactions d @ new \<Longrightarrow> already_processed eid d'"
  by (auto simp: already_processed_def find_None_iff)

lemma settled_grows:
  assumes s: "settled ev d" and g: "grows d d'"
  shows "settled ev d'"
proof -
  from g obtain new where txs: "usdt_transactions d' = usdt_transactions d @ new"
    and len: "\<And>t. length (filter (balance_key t ''usdt'') (balances d))
              \<le> length (filter (balance_key t ''usdt'') (balances d'))"
    unfolding grows_def by blast
  show ?thesis
  proof (cases "event_key ev = []")
    case True then show ?thesis by (simp add: settled_def)
  next
    case k: False
    show ?thesis
    proof (cases "already_processed (PREFIX @ event_key ev) d")
      case True
      then have "already_processed (PREFIX @ event_key ev) d'"
        using txs by (rule already_processed_append)
      then show ?thesis by (simp add: settled_def)
    next
      case ap: False
      show ?thesis
      proof (cases "first_transfer (ev_actions ev)")
        case None then show ?thesis by (simp add: settled_def)
      next
        case (Some p)
        obtain tid amt where p: "p = (tid, amt)" by (cases p)
        have "2 \<le> length (filter (balance_key tid ''usdt'') (balances d))"
          using s k ap Some p by (simp add: settled_def)
        then have "2 \<le> length (filter (balance_key tid ''usdt'') (balances d'))"
          using len [of tid] by linarith
        then show ?thesis using Some p by (simp add: settled_def)
      qed
    qed
  qed
qed

lemma settled_noop:
  assumes s: "settled ev d"
  shows "scan_event ev (c, d) = (c, d)"
proof (cases "event_key ev = [] \<or> already_processed (PREFIX @ event_key ev) d")
  case True then show ?thesis by (auto simp: scan_event_unfold)
next
  case False
  show ?thesis
  proof (cases "first_transfer (ev_actions ev)")
    case None then show ?thesis using False by (simp add: scan_event_unfold)
  next
    case (Some p)
    obtain tid amt where p: "p = (tid, amt)" by (cases p)
    have "2 \<le> length (filter (balance_key tid ''usdt'') (balances d))"
      using s False Some p by (simp add: settled_def)
    then have "credit_usdt tid amt (PREFIX @ event_key ev) d = (False, d)"
      by (rule credit_usdt_multi)
    then show ?thesis using False Some p by (simp add: scan_event_unfold)
  qed
qed

lemma find_append_last: "P r \<Longrightarrow> find P (xs @ [r]) \<noteq> None"
  by (induction xs) auto

lemma credited_is_processed:
  assumes "fst (credit_usdt tid amt eid d)"
  shows "already_processed eid (snd (credit_usdt tid amt eid d))"
proof -
  have "event_id (deposit_record eid tid amt) = eid" by (simp add: deposit_record_def)
  then show ?thesis
    unfolding already_processed_def credit_usdt_True(2) [OF assms]
    by (rule find_append_last)
qed

lemma settled_after: "settled ev (snd (scan_event ev (c, d)))"
proof (cases "event_key ev = []")
  case True then show ?thesis by (simp add: settled_def)
next
  case k: False
  show ?thesis
  proof (cases "already_processed (PREFIX @ event_key ev) d")
    case True
    then have "scan_event ev (c, d) = (c, d)" using k by (simp add: scan_event_unfold)
    then show ?thesis using True k by (simp add: settled_def)
  next
    case ap: False
    show ?thesis
    proof (cases "first_transfer (ev_actions ev)")
      case None then show ?thesis by (simp add: settled_def)
    next
      case (Some p)
      obtain tid amt where p: "p = (tid, amt)" by (cases p)
      show ?thesis
      proof (cases "fst (credit_usdt tid amt (PREFIX @ event_key ev) d)")
        case True
        then have "scan_event ev (c, d) = (c + 1, snd (credit_usdt tid amt (PREFIX @ event_key ev) d))"
          using k ap Some p by (simp add: scan_event_unfold)
        moreover have "already_processed (PREFIX @ event_key ev)
                         (snd (credit_usdt tid amt (PREFIX @ event_key ev) d))"
          using True by (rule credited_is_processed)
        ultimately show ?thesis by (simp add: settled_def)
      next
        case False
        then have "snd (credit_usdt tid amt (PREFIX @ event_key ev) d) = d"
          by (rule credit_usdt_False)
        then have same: "scan_event ev (c, d) = (c, d)"
          using k ap Some p False by (simp add: scan_event_unfold)
        have "2 \<le> length (filter (balance_key tid ''usdt'') (balances d))"
          using False ap by (rule credit_usdt_False_why)
        then show ?thesis using same k ap Some p by (simp add: settled_def)
      qed
    qed
  qed
qed

lemma fold_settled_noop:
  "\<forall>ev \<in> set evs. settled ev d \<Longrightarrow> fold scan_event evs (c, d) = (c, d)"
  by (induction evs) (simp_all add: settled_noop)

lemma fold_grows: "grows d (snd (fold scan_event evs (c, d)))"
proof (induction evs arbitrary: c d)
  case Nil show ?case by (simp add: grows_refl)
next
  case (Cons ev evs)
  obtain c1 d1 where s: "scan_event ev (c, d) = (c1, d1)" by (cases "scan_event ev (c, d)")
  have g1: "grows d d1" using scan_event_grows [of d ev c] s by simp
  have g2: "grows d1 (snd (fold scan_event evs (c1, d1)))" by (rule Cons.IH)
  have "grows d (snd (fold scan_event evs (c1, d1)))"
    using g1 g2 unfolding grows_def by (auto intro: order_trans)
  then show ?case using s by simp
qed

lemma fold_settles:
  "\<forall>ev \<in> set evs. settled ev (snd (fold scan_event evs (c, d)))"
proof (induction evs arbitrary: c d)
  case Nil show ?case by simp
next
  case (Cons ev evs)
  obtain c1 d1 where s: "scan_event ev (c, d) = (c1, d1)" by (cases "scan_event ev (c, d)")
  have "settled ev d1" using settled_after [of ev c d] s by simp
  then have "settled ev (snd (fold scan_event evs (c1, d1)))"
    using fold_grows [of d1 evs c1] by (rule settled_grows)
  moreover have "\<forall>e \<in> set evs. settled e (snd (fold scan_event evs (c1, d1)))"
    by (rule Cons.IH)
  ultimately show ?case using s by simp
qed

lemma scan_twice:
  "scan_usdt_deposits evs (snd (scan_usdt_deposits evs d)) = (0, snd (scan_usdt_deposits evs d))"
  unfolding scan_usdt_deposits_def
  by (rule fold_settled_noop) (rule fold_settles)

lemma usdt_available_update:
  "keeps_key f \<Longrightarrow> usdt_available u (update_balance t ''usdt'' f bs)
     = usdt_available u bs
       + sum_list (map (\<lambda>b. available (f b) - available b)
           (filter (balance_key u ''usdt'') (filter (balance_key t ''usdt'') bs)))"
proof (induction bs)
  case Nil
  show ?case by (simp add: update_balance_def usdt_available_def)
next
  case (Cons b bs)
  have k: "balance_key u ''usdt'' (f b) = balance_key u ''usdt'' b"
    using Cons.prems by (simp add: keeps_key_def balance_key_def)
  from Cons.IH [OF Cons.prems] show ?case
    by (simp add: update_balance_def usdt_available_def k)
qed

lemma filter_key_other:
  "u \<noteq> t \<Longrightarrow> filter (\<lambda>x. balance_key t c x \<and> balance_key u c x) bs = []"
  by (induction bs) (auto simp: balance_key_def)

lemma credit_usdt_available:
  assumes "fst (credit_usdt tid amt eid d)"
  shows "usdt_available u (balances (snd (credit_usdt tid amt eid d)))
     = usdt_available u (balances d) + (if u = tid then amt else 0)"
proof (cases "filter (balance_key tid ''usdt'') (balances d) = []")
  case True
  then show ?thesis
    by (simp add: credit_usdt_True(4) [OF assms] usdt_available_def new_usdt_balance_def balance_key_def)
next
  case False
  moreover have "length (filter (balance_key tid ''usdt'') (balances d)) \<le> 1"
    by (rule credit_usdt_True(3) [OF assms])
  ultimately obtain b where b: "filter (balance_key tid ''usdt'') (balances d) = [b]"
    by (cases "filter (balance_key tid ''usdt'') (balances d)") auto
  show ?thesis
  proof (cases "u = tid")
    case True
    have "balance_key tid ''usdt'' b" using b by (rule filter_single_holds)
    then show ?thesis using True False b
      by (simp add: credit_usdt_True(4) [OF assms] usdt_available_update keeps_key_credit)
  next
    case ne: False
    then show ?thesis using False
      by (simp add: credit_usdt_True(4) [OF assms] usdt_available_update keeps_key_credit
          filter_key_other)
  qed
qed

lemma credit_recorded:
  assumes "fst (credit_usdt tid amt eid d)"
  shows "recorded_deposits u (usdt_transactions (snd (credit_usdt tid amt eid d)))
     = recorded_deposits u (usdt_transactions d) + (if u = tid then amt else 0)"
  by (simp add: credit_usdt_True(2) [OF assms] recorded_deposits_def deposit_record_def)

lemma credit_ledger:
  "usdt_available u (balances (snd (credit_usdt tid amt eid d)))
     - recorded_deposits u (usdt_transactions (snd (credit_usdt tid amt eid d)))
   = usdt_available u (balances d) - recorded_deposits u (usdt_transactions d)"
proof (cases "fst (credit_usdt tid amt eid d)")
  case True
  then show ?thesis by (simp add: credit_usdt_available credit_recorded)
next
  case False
  then show ?thesis by (simp add: credit_usdt_False)
qed

lemma already_processed_iff:
  "already_processed eid d \<longleftrightarrow> eid \<in> set (map event_id (usdt_transactions d))"
  by (auto simp: already_processed_def find_None_iff)

lemma credit_distinct:
  assumes "distinct (map event_id (usdt_transactions d))"
  shows "distinct (map event_id (usdt_transactions (snd (credit_usdt tid amt eid d))))"
proof (cases "fst (credit_usdt tid amt eid d)")
  case True
  have "eid \<notin> set (map event_id (usdt_transactions d))"
    using credit_usdt_True(1) [OF True] by (simp add: already_processed_iff)
  then show ?thesis using assms
    by (simp add: credit_usdt_True(2) [OF True] deposit_record_def)
next
  case False
  then show ?thesis using assms by (simp add: credit_usdt_False)
qed

lemma scan_event_is_credit:
  "snd (scan_event ev (c, d)) = d
   \<or> (\<exists>tid amt eid. snd (scan_event ev (c, d)) = snd (credit_usdt tid amt eid d))"
proof -
  from scan_event_cases [of ev c d] show ?thesis
  proof
    assume "scan_event ev (c, d) = (c, d)"
    then show ?thesis by simp
  next
    assume "\<exists>tid amt. event_key ev \<noteq> [] \<and> \<not> already_processed (PREFIX @ event_key ev) d
         \<and> first_transfer (ev_actions ev) = Some (tid, amt)
         \<and> fst (credit_usdt tid amt (PREFIX @ event_key ev) d)
         \<and> scan_event ev (c, d) = (c + 1, snd (credit_usdt tid amt (PREFIX @ event_key ev) d))"
    then obtain tid amt where
      "scan_event ev (c, d) = (c + 1, snd (credit_usdt tid amt (PREFIX @ event_key ev) d))"
      by blast
    then have "snd (scan_event ev (c, d)) = snd (credit_usdt tid amt (PREFIX @ event_key ev) d)"
      by simp
    then show ?thesis by blast
  qed
qed

lemma scan_event_ledger:
  "usdt_available u (balances (snd (scan_event ev (c, d))))
     - recorded_deposits u (usdt_transactions (snd (scan_event ev (c, d))))
   = usdt_available u (balances d) - recorded_deposits u (usdt_transactions d)"
  using scan_event_is_credit [of ev c d] by (auto simp: credit_ledger)

lemma scan_event_distinct:
  "distinct (map event_id (usdt_transactions d))
   \<Longrightarrow> distinct (map event_id (usdt_transactions (snd (scan_event ev (c, d)))))"
  using scan_event_is_credit [of ev c d] by (auto simp: credit_distinct)

lemma fold_ledger:
  "usdt_available u (balances (snd (fold scan_event evs (c, d))))
     - recorded_deposits u (usdt_transactions (snd (fold scan_event evs (c, d))))
   = usdt_available u (balances d) - recorded_deposits u (usdt_transactions d)"
proof (induction evs arbitrary: c d)
  case Nil show ?case by simp
next
  case (Cons ev evs)
  obtain c1 d1 where s: "scan_event ev (c, d) = (c1, d1)" by (cases "scan_event ev (c, d)")
  show ?case using Cons.IH [of c1 d1] scan_event_ledger [of u ev c d] s by simp
qed

lemma fold_distinct:
  "distinct (map event_id (usdt_transactions d))
   \<Longrightarrow> distinct (map event_id (usdt_transactions (snd (fold scan_event evs (c, d)))))"
proof (induction evs arbitrary: c d)
  case Nil then show ?case by simp
next
  case (Cons ev evs)
  obtain c1 d1 where s: "scan_event ev (c, d) = (c1, d1)" by (cases "scan_event ev (c, d)")
  have "distinct (map event_id (usdt_transactions d1))"
    using scan_event_distinct [OF Cons.prems, of ev c] s by simp
  then show ?case using Cons.IH [of d1 c1] s by simp
qed

lemmas scan_defs = scan_usdt_deposits_def scan_event_def event_key_def str_truthy_def
  already_processed_def PREFIX_def parse_jetton_transfer_def comment_truthy_def strip_def
  is_space_def isdigit_def is_digit_char_def py_int_def credit_usdt_def deposit_record_def
  new_usdt_balance_def demo_transfer_def demo_event_def




text \<open>
  C3. A second scan over the same events credits nothing and leaves the database of the
  first scan as it is. Over a scan, the available USDT of every account changes by exactly
  the amounts of the deposit records added for it, and the record ids stay distinct: one
  credit per recorded event id. \<open>_credit_usdt\<close> is all or nothing: when it returns
  \<open>False\<close> the database is unchanged, when it returns \<open>True\<close> the record is inserted and
  the account is credited by the amount.
\<close>

theorem deposit_scan_idempotent:
  "scan_usdt_deposits evs (snd (scan_usdt_deposits evs d)) = (0, snd (scan_usdt_deposits evs d))
   \<and> usdt_available u (balances (snd (scan_usdt_deposits evs d))) - usdt_available u (balances d)
       = recorded_deposits u (usdt_transactions (snd (scan_usdt_deposits evs d)))
         - recorded_deposits u (usdt_transactions d)
   \<and> (distinct (map event_id (usdt_transactions d))
        \<longrightarrow> distinct (map event_id (usdt_transactions (snd (scan_usdt_deposits evs d)))))
   \<and> (\<not> fst (credit_usdt tid amt eid d) \<longrightarrow> snd (credit_usdt tid amt eid d) = d)
   \<and> (fst (credit_usdt tid amt eid d)
        \<longrightarrow> usdt_transactions (snd (credit_usdt tid amt eid d))
              = usdt_transactions d @ [deposit_record eid tid amt]
            \<and> usdt_available tid (balances (snd (credit_usdt tid amt eid d)))
              = usdt_available tid (balances d) + amt)"
proof (intro conjI impI)
  show "scan_usdt_deposits evs (snd (scan_usdt_deposits evs d)) = (0, snd (scan_usdt_deposits evs d))"
    by (rule scan_twice)
  show "usdt_available u (balances (snd (scan_usdt_deposits evs d))) - usdt_available u (balances d)
       = recorded_deposits u (usdt_transactions (snd (scan_usdt_deposits evs d)))
         - recorded_deposits u (usdt_transactions d)"
    using fold_ledger [of u evs 0 d] by (simp add: scan_usdt_deposits_def algebra_simps)
  show "distinct (map event_id (usdt_transactions (snd (scan_usdt_deposits evs d))))"
    if "distinct (map event_id (usdt_transactions d))"
    using that unfolding scan_usdt_deposits_def by (rule fold_distinct)
  show "snd (credit_usdt tid amt eid d) = d" if "\<not> fst (credit_usdt tid amt eid d)"
    using that by (rule credit_usdt_False)
  show "usdt_transactions (snd (credit_usdt tid amt eid d))
          = usdt_transactions d @ [deposit_record eid tid amt]"
    if "fst (credit_usdt tid amt eid d)"
    using that by (rule credit_usdt_True(2))
  show "usdt_available tid (balances (snd (credit_usdt tid amt eid d)))
          = usdt_available tid (balances d) + amt"
    if "fst (credit_usdt tid amt eid d)"
    using that by (simp add: credit_usdt_available)
qed

theorem deposit_scan_idempotent_witness:
  "scan_usdt_deposits
      [demo_event ''e1'' 5000000 ''1'', demo_event ''e1'' 5000000 ''1'', demo_event ''e2'' 2500000 ''1'']
      (demo_db [] [demo_balance 1 ''usdt'' 100 0])
     = (2, (demo_db [] [(demo_balance 1 ''usdt'' (215 / 2) 0)\<lparr>total_deposited := 15 / 2\<rparr>])
             \<lparr>usdt_transactions := [deposit_record ''usdt_e1'' 1 5, deposit_record ''usdt_e2'' 1 (5 / 2)]\<rparr>)
   \<and> scan_usdt_deposits
      [demo_event ''e1'' 5000000 ''1'', demo_event ''e1'' 5000000 ''1'', demo_event ''e2'' 2500000 ''1'']
      ((demo_db [] [(demo_balance 1 ''usdt'' (215 / 2) 0)\<lparr>total_deposited := 15 / 2\<rparr>])
             \<lparr>usdt_transactions := [deposit_record ''usdt_e1'' 1 5, deposit_record ''usdt_e2'' 1 (5 / 2)]\<rparr>)
     = (0, (demo_db [] [(demo_balance 1 ''usdt'' (215 / 2) 0)\<lparr>total_deposited := 15 / 2\<rparr>])
             \<lparr>usdt_transactions := [deposit_record ''usdt_e1'' 1 5, deposit_record ''usdt_e2'' 1 (5 / 2)]\<rparr>)
   \<and> credit_usdt 1 5 ''usdt_e1'' (demo_db [] [demo_balance 1 ''usdt'' 100 0, demo_balance 1 ''usdt'' 0 0])
     = (False, demo_db [] [demo_balance 1 ''usdt'' 100 0, demo_balance 1 ''usdt'' 0 0])"
  using
    deposit_scan_idempotent [of
      "[demo_event ''e1'' 5000000 ''1'', demo_event ''e1'' 5000000 ''1'', demo_event ''e2'' 2500000 ''1'']"
      "demo_db [] [demo_balance 1 ''usdt'' 100 0]" 1 1 5 "''usdt_e1''"]
    deposit_scan_idempotent [of "[]"
      "demo_db [] [demo_balance 1 ''usdt'' 100 0, demo_balance 1 ''usdt'' 0 0]" 1 1 5 "''usdt_e1''"]
  by (simp add: scan_defs demo_defs)



subsection \<open>Withdrawals\<close>

















subsection \<open>The expected text\<close>

lemma strip_tags_no_LT: "LT \<notin> set s \<Longrightarrow> strip_tags s = s"
  by (induction s) auto

lemma tag_end_append:
  assumes "GT \<notin> set suf"
  shows "tag_end (cs @ suf) = (case tag_end cs of Some r \<Rightarrow> Some (r @ suf) | None \<Rightarrow> None)"
proof (cases "GT \<in> set cs")
  case True
  then have d: "dropWhile (\<lambda>c. c \<noteq> GT) cs \<noteq> []" by simp
  have t: "takeWhile (\<lambda>c. c \<noteq> GT) (cs @ suf) = takeWhile (\<lambda>c. c \<noteq> GT) cs"
    using True by (intro takeWhile_append1[where x=GT]) auto
  have dd: "dropWhile (\<lambda>c. c \<noteq> GT) (cs @ suf) = dropWhile (\<lambda>c. c \<noteq> GT) cs @ suf"
    using True by (intro dropWhile_append1[where x=GT]) auto
  show ?thesis using d True by (auto simp: tag_end_def Let_def t dd)
next
  case False
  then have "dropWhile (\<lambda>c. c \<noteq> GT) (cs @ suf) = []" "dropWhile (\<lambda>c. c \<noteq> GT) cs = []"
    using assms by auto
  then show ?thesis by (simp add: tag_end_def Let_def)
qed

lemma tag_end_shorter: "tag_end cs = Some r \<Longrightarrow> length r < length cs"
proof -
  assume "tag_end cs = Some r"
  then have r: "r = tl (dropWhile (\<lambda>c. c \<noteq> GT) cs)" and ne: "dropWhile (\<lambda>c. c \<noteq> GT) cs \<noteq> []"
    by (auto simp: tag_end_def Let_def split: if_splits)
  have "length (dropWhile (\<lambda>c. c \<noteq> GT) cs) \<le> length cs" by (rule length_dropWhile_le)
  then show ?thesis using r ne by (cases "dropWhile (\<lambda>c. c \<noteq> GT) cs") auto
qed

lemma strip_tags_suffix:
  assumes "GT \<notin> set suf" "LT \<notin> set suf"
  shows "\<exists>pre. strip_tags (xs @ suf) = pre @ suf"
proof (induction xs rule: length_induct)
  case (1 xs)
  show ?case
  proof (cases xs)
    case Nil
    then show ?thesis using assms(2) by (simp add: strip_tags_no_LT)
  next
    case (Cons c cs)
    from 1 Cons obtain p where p: "strip_tags (cs @ suf) = p @ suf" by auto
    show ?thesis
    proof (cases "c = LT")
      case False
      then have "strip_tags (xs @ suf) = (c # p) @ suf" using Cons p by simp
      then show ?thesis by blast
    next
      case True
      show ?thesis
      proof (cases "tag_end cs")
        case None
        then have "strip_tags (xs @ suf) = (c # p) @ suf"
          using Cons True p by (simp add: tag_end_append [OF assms(1)])
        then show ?thesis by blast
      next
        case (Some r)
        then have "length r < length xs" using Cons tag_end_shorter [of cs r] by simp
        with 1 obtain q where q: "strip_tags (r @ suf) = q @ suf" by blast
        have "strip_tags (xs @ suf) = q @ suf"
          using Cons True Some q by (simp add: tag_end_append [OF assms(1)])
        then show ?thesis by blast
      qed
    qed
  qed
qed

lemma split_acc_nonempty:
  "w \<noteq> [] \<or> (\<exists>c \<in> set s. \<not> isspace c) \<Longrightarrow> split_acc w s \<noteq> []"
  by (induction s arbitrary: w) auto

lemma split_acc_words:
  "\<forall>c \<in> set w. \<not> isspace c
   \<Longrightarrow> \<forall>x \<in> set (split_acc w s). x \<noteq> [] \<and> (\<forall>c \<in> set x. \<not> isspace c)"
proof (induction s arbitrary: w)
  case Nil
  then show ?case by simp
next
  case (Cons a s)
  have e: "\<forall>x \<in> set (split_acc [] s). x \<noteq> [] \<and> (\<forall>c \<in> set x. \<not> isspace c)"
    by (rule Cons.IH) simp
  show ?case
  proof (cases "isspace a")
    case True
    then show ?thesis using e Cons.prems by simp
  next
    case False
    then have "\<forall>c \<in> set (a # w). \<not> isspace c" using Cons.prems by simp
    then have "\<forall>x \<in> set (split_acc (a # w) s). x \<noteq> [] \<and> (\<forall>c \<in> set x. \<not> isspace c)"
      by (rule Cons.IH)
    then show ?thesis using False by simp
  qed
qed

lemma join_space_has_word:
  "ws \<noteq> [] \<Longrightarrow> \<forall>x \<in> set ws. x \<noteq> [] \<and> (\<forall>c \<in> set x. \<not> isspace c)
   \<Longrightarrow> \<exists>c \<in> set (join_space ws). \<not> isspace c"
proof (cases ws)
  case Nil then show "ws \<noteq> [] \<Longrightarrow> ?thesis" by simp
next
  case (Cons w rest)
  assume a: "\<forall>x \<in> set ws. x \<noteq> [] \<and> (\<forall>c \<in> set x. \<not> isspace c)"
  then have "w \<noteq> []" "\<forall>c \<in> set w. \<not> isspace c" using Cons by auto
  then obtain c where c: "c \<in> set w" "\<not> isspace c" by (cases w) auto
  have "set w \<subseteq> set (join_space ws)" using Cons by (cases rest) auto
  then show ?thesis using c by blast
qed

lemma text_strip_nonempty: "\<exists>c \<in> set s. \<not> isspace c \<Longrightarrow> text_strip s \<noteq> []"
proof -
  assume a: "\<exists>c \<in> set s. \<not> isspace c"
  let ?t = "dropWhile isspace s"
  have t: "?t \<noteq> []" using a by simp
  then have "\<not> isspace (hd ?t)" by (rule hd_dropWhile)
  moreover have "hd ?t \<in> set (rev ?t)" using t by simp
  ultimately have "dropWhile isspace (rev ?t) \<noteq> []"
    by auto
  then show ?thesis by (simp add: text_strip_def)
qed

lemma normalize_suffix_nonempty: "normalize_text (body @ AD_SUFFIX) \<noteq> []"
proof -
  have "GT \<notin> set AD_SUFFIX" "LT \<notin> set AD_SUFFIX" by (simp_all add: AD_SUFFIX_def GT_def LT_def)
  then obtain pre where pre: "strip_tags (body @ AD_SUFFIX) = pre @ AD_SUFFIX"
    using strip_tags_suffix by blast
  have "35 \<in> set (pre @ AD_SUFFIX)" by (simp add: AD_SUFFIX_def)
  moreover have "\<not> isspace 35" by (simp add: isspace_def)
  ultimately have ex: "\<exists>c \<in> set (strip_tags (body @ AD_SUFFIX)). \<not> isspace c"
    unfolding pre by blast
  let ?ws = "text_split (strip_tags (body @ AD_SUFFIX))"
  have "?ws \<noteq> []" using ex by (simp add: text_split_def split_acc_nonempty)
  moreover have "\<forall>x \<in> set ?ws. x \<noteq> [] \<and> (\<forall>c \<in> set x. \<not> isspace c)"
    unfolding text_split_def by (rule split_acc_words) simp
  ultimately have "\<exists>c \<in> set (join_space ?ws). \<not> isspace c" by (rule join_space_has_word)
  then have "text_strip (join_space ?ws) \<noteq> []" by (rule text_strip_nonempty)
  moreover have "body @ AD_SUFFIX \<noteq> []" by (simp add: AD_SUFFIX_def)
  ultimately show ?thesis by (simp add: normalize_text_def)
qed

text \<open>
  The expected text of an order always ends with the hashtag, which no tag match can
  swallow (the suffix holds no \<open>>\<close>): \<open>_build_expected_text\<close> never returns the empty
  string, whatever the stored post text.
\<close>

lemma build_expected_text_nonempty: "build_expected_text order has_media \<noteq> []"
proof -
  have "\<not> isspace DOT" by (simp add: isspace_def DOT_def)
  then have "text_strip (xs @ ELLIPSIS) \<noteq> []" for xs
    by (intro text_strip_nonempty) (auto simp: ELLIPSIS_def)
  then show ?thesis
    by (simp add: build_expected_text_def Let_def normalize_suffix_nonempty)
qed

end
